theory Spec2Isabelle
  imports Main "HOL-Library.Word"
begin

unbundle bit_operations_syntax

section \<open>The half-precision codec (package float16)\<close>

text \<open>
  A \<^verbatim>\<open>Float16\<close> is a \<^verbatim>\<open>uint16\<close>. The codec works on the IEEE-754 bit patterns
  that \<^verbatim>\<open>math.Float32bits\<close> and \<^verbatim>\<open>math.Float64bits\<close> return, so a \<^verbatim>\<open>float32\<close> is
  modelled by its 32-bit pattern and a \<^verbatim>\<open>float64\<close> by its 64-bit pattern. The
  conversions \<^verbatim>\<open>Float16(x)\<close>, \<^verbatim>\<open>uint32(x)\<close> and \<^verbatim>\<open>int32(x)\<close> between unsigned widths are
  \<open>ucast\<close>; \<^verbatim>\<open>>>\<close> is \<open>drop_bit\<close> and \<^verbatim>\<open><<\<close> is \<open>push_bit\<close>.
\<close>

type_synonym Float16 = "16 word"
type_synonym float32 = "32 word"
type_synonym float64 = "64 word"

definition NaN :: Float16 where "NaN = 0x7FFF"
definition InfPos :: Float16 where "InfPos = 0x7C00"
definition InfNeg :: Float16 where "InfNeg = 0xFC00"
definition expMask :: Float16 where "expMask = 0x7C00"
definition mantissaMask :: Float16 where "mantissaMask = 0x03FF"
definition signMask :: Float16 where "signMask = 0x8000"

text \<open>
  \<^verbatim>\<open>FF32\<close>. The rebiased exponent \<^verbatim>\<open>sexp\<close> is an \<^verbatim>\<open>int32\<close>; it is read with \<open>sint\<close>.
  The shift count \<^verbatim>\<open>-sexp + 1\<close> is at least 1 in the branch that uses it.
\<close>

definition FF32 :: "float32 \<Rightarrow> Float16" where
  "FF32 bits =
    (let sign = drop_bit 31 bits;
         exp = drop_bit 23 bits AND 0xff;
         frac = bits AND 0x7fffff
     in if exp = 0xff then
          (if frac \<noteq> 0 then NaN else ucast (push_bit 15 sign) OR InfPos)
        else if exp = 0 then
          (let frac = drop_bit 13 frac in ucast (push_bit 15 sign) OR ucast frac)
        else
          (let sexp = (exp - 127 + 15 :: 32 word) in
           if 0x1f \<le> sint sexp then ucast (push_bit 15 sign) OR InfPos
           else if sint sexp \<le> 0 then
             (let frac = drop_bit (nat (sint (- sexp + 1))) frac
              in ucast (push_bit 15 sign) OR ucast (drop_bit 13 frac))
           else
             (let exp = sexp
              in ucast (push_bit 15 sign) OR ucast (push_bit 10 exp) OR ucast (drop_bit 13 frac))))"

text \<open>
  \<^verbatim>\<open>FF64\<close>, lines 51 to 78 of the codec. \<^verbatim>\<open>int32(exp)\<close> truncates the 64-bit \<^verbatim>\<open>exp\<close>;
  the underflow branch shifts by \<^verbatim>\<open>-sexp + 1\<close> and then by 13, as the source does.
\<close>

definition FF64 :: "float64 \<Rightarrow> Float16" where
  "FF64 bits =
    (let sign = drop_bit 63 bits;
         exp = drop_bit 52 bits AND 0x7ff;
         frac = bits AND 0xfffffffffffff
     in if exp = 0x7ff then
          (if frac \<noteq> 0 then NaN else ucast (push_bit 15 sign) OR InfPos)
        else if exp = 0 then
          (let frac = drop_bit 42 frac in ucast (push_bit 15 sign) OR ucast frac)
        else
          (let sexp = ((ucast exp :: 32 word) - 1023 + 15) in
           if 0x1f \<le> sint sexp then ucast (push_bit 15 sign) OR InfPos
           else if sint sexp \<le> 0 then
             (let frac = drop_bit (nat (sint (- sexp + 1))) frac
              in ucast (push_bit 15 sign) OR ucast (drop_bit 13 frac))
           else
             (let exp = (ucast sexp :: 64 word)
              in ucast (push_bit 15 sign) OR ucast (push_bit 10 exp) OR ucast (drop_bit 42 frac))))"

text \<open>
  The renormalising loop of \<^verbatim>\<open>ToF32\<close> and \<^verbatim>\<open>ToF64\<close>:
  \<^verbatim>\<open>for frac&0x400 == 0 { frac <<= 1; exp-- }\<close>. On \<open>frac = 0\<close> it would not return,
  so it is a partial function, \<open>None\<close> standing for a loop that runs forever.
\<close>

partial_function (option) denorm32 :: "32 word \<Rightarrow> 32 word \<Rightarrow> (32 word \<times> 32 word) option" where
  "denorm32 frac exp =
    (if frac AND 0x400 = 0 then denorm32 (push_bit 1 frac) (exp - 1) else Some (frac, exp))"

partial_function (option) denorm64 :: "64 word \<Rightarrow> 64 word \<Rightarrow> (64 word \<times> 64 word) option" where
  "denorm64 frac exp =
    (if frac AND 0x400 = 0 then denorm64 (push_bit 1 frac) (exp - 1) else Some (frac, exp))"

declare denorm32.simps [code]
declare denorm64.simps [code]

definition ToF32 :: "Float16 \<Rightarrow> float32 option" where
  "ToF32 f16 =
    (let sign = (ucast (drop_bit 15 f16 AND 0x1) :: 32 word);
         exp = (ucast (drop_bit 10 f16 AND 0x1f) :: 32 word);
         frac = (ucast (f16 AND 0x3ff) :: 32 word)
     in if exp = 0x1f then
          (if frac \<noteq> 0 then Some (push_bit 23 0xff OR push_bit 13 frac OR 0x1)
           else Some (push_bit 31 sign OR push_bit 23 0xff))
        else if frac = 0 \<and> exp = 0 then Some 0
        else
          (case (if exp = 0 then
                   (case denorm32 frac exp of
                      None \<Rightarrow> None
                    | Some (frac, exp) \<Rightarrow> Some (frac AND 0x3ff, exp + 1))
                 else Some (frac, exp)) of
             None \<Rightarrow> None
           | Some (frac, exp) \<Rightarrow>
               (let exp = exp + (127 - 15)
                in Some (push_bit 31 sign OR push_bit 23 exp OR push_bit 13 frac))))"

definition ToF64 :: "Float16 \<Rightarrow> float64 option" where
  "ToF64 f16 =
    (let sign = (ucast (drop_bit 15 f16 AND 0x1) :: 64 word);
         exp = (ucast (drop_bit 10 f16 AND 0x1f) :: 64 word);
         frac = (ucast (f16 AND 0x3ff) :: 64 word)
     in if exp = 0x1f then
          (if frac \<noteq> 0 then Some (push_bit 52 0x7ff OR push_bit 42 frac OR 0x1)
           else Some (push_bit 63 sign OR push_bit 52 0x7ff))
        else if frac = 0 \<and> exp = 0 then Some 0
        else
          (case (if exp = 0 then
                   (case denorm64 frac exp of
                      None \<Rightarrow> None
                    | Some (frac, exp) \<Rightarrow> Some (frac AND 0x3ff, exp + 1))
                 else Some (frac, exp)) of
             None \<Rightarrow> None
           | Some (frac, exp) \<Rightarrow>
               (let exp = exp + (1023 - 15)
                in Some (push_bit 63 sign OR push_bit 52 exp OR push_bit 42 frac))))"


subsection \<open>Go's own float conversions and comparison\<close>

text \<open>
  \<^verbatim>\<open>float64(x)\<close> on a \<^verbatim>\<open>float32\<close> and \<^verbatim>\<open>float32(x)\<close> on a \<^verbatim>\<open>float64\<close> are conversions of the
  language, not of the repository. They are written here on the bit patterns as IEEE-754
  defines them: widening is exact; narrowing rounds to nearest, ties to even, overflows
  to infinity and underflows through the subnormals. A NaN stays a (quiet) NaN.
\<close>

fun bitlen :: "int \<Rightarrow> nat" where
  "bitlen n = (if n \<le> 0 then 0 else Suc (bitlen (n div 2)))"

declare bitlen.simps [simp del]

definition float64_of_float32 :: "float32 \<Rightarrow> float64" where
  "float64_of_float32 bits =
    (let sign = (ucast (drop_bit 31 bits) :: 64 word);
         exp = (ucast (drop_bit 23 bits AND 0xff) :: 64 word);
         frac = (ucast (bits AND 0x7fffff) :: 64 word)
     in if exp = 0xff then
          (if frac \<noteq> 0 then push_bit 63 sign OR 0x7ff8000000000000 OR push_bit 29 frac
           else push_bit 63 sign OR 0x7ff0000000000000)
        else if exp = 0 then
          (if frac = 0 then push_bit 63 sign
           else (let p = bitlen (uint frac)
                 in push_bit 63 sign OR push_bit 52 (of_nat (p + 873))
                      OR (push_bit (53 - p) frac AND 0xfffffffffffff)))
        else push_bit 63 sign OR push_bit 52 (exp + 896) OR push_bit 29 frac)"

text \<open>\<open>round_even m s\<close> is \<open>m / 2 ^ s\<close> rounded to the nearest integer, ties to even.\<close>

definition round_even :: "int \<Rightarrow> nat \<Rightarrow> int" where
  "round_even m s =
    (let q = m div 2 ^ s; r = 2 * (m mod 2 ^ s)
     in if 2 ^ s < r \<or> (r = 2 ^ s \<and> odd q) then q + 1 else q)"

text \<open>
  \<open>round_float32 m e\<close> is the \<^verbatim>\<open>float32\<close> pattern (sign bit clear) nearest to
  \<open>m * 2 ^ e\<close>, for the \<open>m\<close> and \<open>e\<close> of a finite \<^verbatim>\<open>float64\<close>.
\<close>

definition round_float32 :: "int \<Rightarrow> int \<Rightarrow> float32" where
  "round_float32 m e =
    (if m = 0 then 0
     else (let E = max (int (bitlen m) - 1 + e) (- 126);
               q = round_even m (nat (E - 23 - e));
               b = (E + 126) * 2 ^ 23 + q
           in if 0x7f800000 \<le> b then 0x7f800000 else word_of_int b))"

definition float32_of_float64 :: "float64 \<Rightarrow> float32" where
  "float32_of_float64 bits =
    (let sign = (ucast (drop_bit 63 bits) :: 32 word);
         exp = uint (drop_bit 52 bits AND 0x7ff);
         frac = uint (bits AND 0xfffffffffffff)
     in if exp = 0x7ff then
          (if frac \<noteq> 0 then push_bit 31 sign OR 0x7fc00000 OR word_of_int (frac div 2 ^ 29)
           else push_bit 31 sign OR 0x7f800000)
        else if exp = 0 then push_bit 31 sign OR round_float32 frac (- 1074)
        else push_bit 31 sign OR round_float32 (2 ^ 52 + frac) (exp - 1075))"

text \<open>
  \<^verbatim>\<open>v[i] != o[i]\<close> on floats is the IEEE comparison, not a comparison of bits: a NaN
  differs from everything, itself included, and the two zeros are equal. On
  \<^verbatim>\<open>Float16\<close>, a \<^verbatim>\<open>uint16\<close>, it is the comparison of the bits.
\<close>

definition isNaN32 :: "float32 \<Rightarrow> bool" where
  "isNaN32 a = (a AND 0x7f800000 = 0x7f800000 \<and> a AND 0x7fffff \<noteq> 0)"

definition isNaN64 :: "float64 \<Rightarrow> bool" where
  "isNaN64 a = (a AND 0x7ff0000000000000 = 0x7ff0000000000000 \<and> a AND 0xfffffffffffff \<noteq> 0)"

definition ne16 :: "Float16 \<Rightarrow> Float16 \<Rightarrow> bool" where
  "ne16 a b = (a \<noteq> b)"

definition ne32 :: "float32 \<Rightarrow> float32 \<Rightarrow> bool" where
  "ne32 a b =
    (isNaN32 a \<or> isNaN32 b \<or> (a \<noteq> b \<and> \<not> (a AND 0x7fffffff = 0 \<and> b AND 0x7fffffff = 0)))"

definition ne64 :: "float64 \<Rightarrow> float64 \<Rightarrow> bool" where
  "ne64 a b =
    (isNaN64 a \<or> isNaN64 b \<or>
     (a \<noteq> b \<and> \<not> (a AND 0x7fffffffffffffff = 0 \<and> b AND 0x7fffffffffffffff = 0)))"


section \<open>Shapes (package graph)\<close>

text \<open>
  Slices are lists; every read or write outside a slice, every failed type assertion,
  every division by zero and every allocation the runtime refuses is the error
  \<open>RuntimePanic\<close>, kept apart from the five errors the package itself panics with.
\<close>

datatype error =
    ErrInvalidShape
  | ErrDimMismatch
  | ErrIndexOutOfRange
  | ErrInvalidData
  | ErrTypeMismatch
  | RuntimePanic

text \<open>
  Go's \<^verbatim>\<open>int\<close> has 64 bits on a 64-bit platform, the one taken here: a sum, a
  difference or a product is taken modulo \<open>2 ^ 64\<close> and read in two's complement. The
  values are kept in \<open>int\<close> and the wrap-around is written out, as \<open>wrap\<close>, at every
  operation whose result can leave the range. A loop counter is compared with a length
  before it is incremented, and a length is decremented only where it is positive: these
  stay within the range and are left as they are.
\<close>

definition wrap :: "int \<Rightarrow> int" where
  "wrap x = (x + 2 ^ 63) mod 2 ^ 64 - 2 ^ 63"

type_synonym Shape = "int list"

definition NewShape :: "int list \<Rightarrow> Shape" where
  "NewShape lens = lens"

definition Dim :: "Shape \<Rightarrow> int" where
  "Dim sh = int (length sh)"

text \<open>
  \<^verbatim>\<open>StrideOf\<close>: the loop starts at \<^verbatim>\<open>i := 1\<close> whatever \<^verbatim>\<open>dim\<close> is; the parameter is
  not read.
\<close>

function StrideOf_loop :: "Shape \<Rightarrow> nat \<Rightarrow> nat \<Rightarrow> int \<Rightarrow> int" where
  "StrideOf_loop sh i c stride =
    (if i < c then StrideOf_loop sh (Suc i) c (wrap (stride * sh ! i)) else stride)"
  by pat_completeness auto
termination
  by (relation "measure (\<lambda>(sh, i, c, stride). c - i)") auto

declare StrideOf_loop.simps [simp del]

definition StrideOf :: "Shape \<Rightarrow> int \<Rightarrow> int" where
  "StrideOf sh dim = StrideOf_loop sh 1 (length sh) 1"

text \<open>
  \<^verbatim>\<open>Strides\<close>: \<^verbatim>\<open>strides[0] = 1\<close> is a write outside the slice when the shape is empty.
\<close>

function Strides_loop :: "Shape \<Rightarrow> nat \<Rightarrow> nat \<Rightarrow> int list \<Rightarrow> int list" where
  "Strides_loop sh i c strides =
    (if i < c then
       Strides_loop sh (Suc i) c (strides[i := wrap (strides ! (i - 1) * sh ! (i - 1))])
     else strides)"
  by pat_completeness auto
termination
  by (relation "measure (\<lambda>(sh, i, c, strides). c - i)") auto

declare Strides_loop.simps [simp del]

definition Strides :: "Shape \<Rightarrow> error + int list" where
  "Strides sh =
    (let strides = replicate (length sh) (0 :: int)
     in if length strides = 0 then Inl RuntimePanic
        else (let strides = strides[0 := 1]
              in Inr (Strides_loop sh 1 (length strides) strides)))"

definition Key :: "Shape \<Rightarrow> int list" where
  "Key sh = replicate (length sh) (- 1)"

function Len_loop :: "Shape \<Rightarrow> nat \<Rightarrow> int \<Rightarrow> int" where
  "Len_loop sh i ln = (if i < length sh then Len_loop sh (Suc i) (wrap (ln * sh ! i)) else ln)"
  by pat_completeness auto
termination
  by (relation "measure (\<lambda>(sh, i, ln). length sh - i)") auto

declare Len_loop.simps [simp del]

definition Len :: "Shape \<Rightarrow> int" where
  "Len sh = Len_loop sh 0 1"

text \<open>
  \<^verbatim>\<open>Shape.Equal\<close>: the loop runs over the axes of \<^verbatim>\<open>sh\<close> and reads \<^verbatim>\<open>other[i]\<close>
  with no check of \<^verbatim>\<open>other\<close>'s rank.
\<close>

function Equal_loop :: "Shape \<Rightarrow> Shape \<Rightarrow> nat \<Rightarrow> error + bool" where
  "Equal_loop sh other i =
    (if i < length sh then
       (if i < length other then
          (if sh ! i \<noteq> other ! i then Inr False else Equal_loop sh other (Suc i))
        else Inl RuntimePanic)
     else Inr True)"
  by pat_completeness auto
termination
  by (relation "measure (\<lambda>(sh, other, i). length sh - i)") auto

declare Equal_loop.simps [simp del]

definition Shape_Equal :: "Shape \<Rightarrow> Shape \<Rightarrow> error + bool" where
  "Shape_Equal sh other =
    (if Len sh \<noteq> Len other then Inr False else Equal_loop sh other 0)"


section \<open>Tensors\<close>

text \<open>
  \<^verbatim>\<open>Type\<close> is an \<^verbatim>\<open>int\<close> with the constants \<^verbatim>\<open>iota + 1\<close>. A value of Go's \<^verbatim>\<open>any\<close> is
  \<^verbatim>\<open>nil\<close>, one of the three element types, a slice of one of them, or something else.
\<close>

type_synonym Type = int

definition Float16 :: Type where "Float16 = 1"
definition Float32 :: Type where "Float32 = 2"
definition Float64 :: Type where "Float64 = 3"

datatype any =
    AnyNil
  | AnyF16 Float16
  | AnyF32 float32
  | AnyF64 float64
  | F16Slice "Float16 list"
  | F32Slice "float32 list"
  | F64Slice "float64 list"
  | AnyOther

record Tensor =
  rank :: int
  data :: any
  shape :: Shape
  "typ" :: Type
  strides :: "int list"

text \<open>
  \<^verbatim>\<open>make([]T, n)\<close> gives \<open>n\<close> zero values. The runtime's \<^verbatim>\<open>makeslice\<close> panics when
  \<open>n\<close> is negative or when \<open>n\<close> elements of \<open>elemsize\<close> bytes each take more than
  \<^verbatim>\<open>maxAlloc\<close> bytes, which is \<open>2 ^ 48\<close> on linux/amd64; an allocation within
  that limit is taken to succeed. \<open>make\<close> is the allocation of a slice as long as one
  that exists and whose elements are no larger, which \<^verbatim>\<open>makeslice\<close> accepts.
\<close>

definition maxAlloc :: int where
  "maxAlloc = 2 ^ 48"

definition makeslice :: "int \<Rightarrow> int \<Rightarrow> error + 'a::zero list" where
  "makeslice elemsize n =
    (if n < 0 \<or> maxAlloc < elemsize * n then Inl RuntimePanic else Inr (replicate (nat n) 0))"

definition make :: "int \<Rightarrow> 'a::zero list" where
  "make n = replicate (nat n) 0"

text \<open>
  \<^verbatim>\<open>aux := make([]T, len(v))\<close> followed by the loop \<^verbatim>\<open>aux[i] = f(v[i])\<close> over all of
  \<^verbatim>\<open>aux\<close>: every cell of the new slice is overwritten.
\<close>

definition convert :: "int \<Rightarrow> ('a \<Rightarrow> 'b) \<Rightarrow> 'a list \<Rightarrow> error + 'b list" where
  "convert elemsize f v =
    (if maxAlloc < elemsize * int (length v) then Inl RuntimePanic else Inr (map f v))"

text \<open>The last five statements of \<^verbatim>\<open>NewTensor\<close>.\<close>

definition init_tensor :: "any \<Rightarrow> Type \<Rightarrow> Shape \<Rightarrow> (error + Tensor) option" where
  "init_tensor data' typ' shape' =
    (case Strides shape' of
       Inl e \<Rightarrow> Some (Inl e)
     | Inr strides' \<Rightarrow>
         Some (Inr \<lparr>rank = int (length shape'), data = data', shape = shape', typ = typ',
                    strides = strides'\<rparr>))"

text \<open>
  \<^verbatim>\<open>NewTensor\<close>. The result is \<open>None\<close> when a conversion loop of the codec does not
  return, \<open>Some (Inl e)\<close> on a panic and \<open>Some (Inr t)\<close> on a normal return. With
  \<^verbatim>\<open>data == nil\<close> the source allocates \<^verbatim>\<open>[]float32\<close> for \<^verbatim>\<open>Float64\<close> and \<^verbatim>\<open>[]float64\<close> for
  \<^verbatim>\<open>Float32\<close>; the \<^verbatim>\<open>switch\<close> on the type of \<^verbatim>\<open>data\<close> then converts it.
  That \<^verbatim>\<open>switch\<close>, each of its branches followed by the last five statements, is
  \<open>NewTensor_switch\<close>. \<^verbatim>\<open>shape.Len()\<close> is the wrapped
  product of the sizes: where it is negative the allocation panics, and where it has
  wrapped to a length that can be allocated the tensor is built with it.
\<close>

definition NewTensor_switch :: "any \<Rightarrow> Type \<Rightarrow> Shape \<Rightarrow> (error + Tensor) option" where
  "NewTensor_switch data' typ' shape' =
    (case data' of
       F16Slice v \<Rightarrow>
         (if int (length v) \<noteq> Len shape' then Some (Inl ErrInvalidShape)
          else if typ' = Float32 then
            (case convert 4 ToF32 v of
               Inl e \<Rightarrow> Some (Inl e)
             | Inr aux \<Rightarrow>
                 (case those aux of
                    None \<Rightarrow> None
                  | Some aux \<Rightarrow> init_tensor (F32Slice aux) typ' shape'))
          else if typ' = Float64 then
            (case convert 8 ToF64 v of
               Inl e \<Rightarrow> Some (Inl e)
             | Inr aux \<Rightarrow>
                 (case those aux of
                    None \<Rightarrow> None
                  | Some aux \<Rightarrow> init_tensor (F64Slice aux) typ' shape'))
          else init_tensor data' typ' shape')
     | F64Slice v \<Rightarrow>
         (if int (length v) \<noteq> Len shape' then Some (Inl ErrInvalidShape)
          else if typ' = Float16 then
            (case convert 2 FF64 v of
               Inl e \<Rightarrow> Some (Inl e)
             | Inr aux \<Rightarrow> init_tensor (F16Slice aux) typ' shape')
          else if typ' = Float32 then
            (case convert 4 float32_of_float64 v of
               Inl e \<Rightarrow> Some (Inl e)
             | Inr aux \<Rightarrow> init_tensor (F32Slice aux) typ' shape')
          else init_tensor data' typ' shape')
     | F32Slice v \<Rightarrow>
         (if int (length v) \<noteq> Len shape' then Some (Inl ErrInvalidShape)
          else if typ' = Float16 then
            (case convert 2 FF32 v of
               Inl e \<Rightarrow> Some (Inl e)
             | Inr aux \<Rightarrow> init_tensor (F16Slice aux) typ' shape')
          else if typ' = Float64 then
            (case convert 8 float64_of_float32 v of
               Inl e \<Rightarrow> Some (Inl e)
             | Inr aux \<Rightarrow> init_tensor (F64Slice aux) typ' shape')
          else init_tensor data' typ' shape')
     | _ \<Rightarrow> Some (Inl ErrInvalidData))"

definition NewTensor :: "any \<Rightarrow> Type \<Rightarrow> Shape \<Rightarrow> (error + Tensor) option" where
  "NewTensor data' typ' shape' =
    (if typ' \<noteq> Float16 \<and> typ' \<noteq> Float32 \<and> typ' \<noteq> Float64 then Some (Inl ErrTypeMismatch)
     else if list_ex (\<lambda>x. x \<le> 0) shape' then Some (Inl ErrInvalidShape)
     else
       (case (if data' = AnyNil then
                (if typ' = Float16 then map_sum id F16Slice (makeslice 2 (Len shape'))
                 else if typ' = Float64 then map_sum id F32Slice (makeslice 4 (Len shape'))
                 else map_sum id F64Slice (makeslice 8 (Len shape')))
              else Inr data') of
          Inl e \<Rightarrow> Some (Inl e)
        | Inr data' \<Rightarrow> NewTensor_switch data' typ' shape'))"

definition Rank :: "Tensor \<Rightarrow> int" where
  "Rank ts = rank ts"

text \<open>
  \<^verbatim>\<open>Reshape\<close> changes the tensor in place; the model returns the changed tensor. The
  \<^verbatim>\<open>switch\<close> has no default: another tag skips the length check.
\<close>

definition Reshape :: "Tensor \<Rightarrow> Shape \<Rightarrow> error + Tensor" where
  "Reshape ts shape' =
    (if list_ex (\<lambda>x. x \<le> 0) shape' then Inl ErrInvalidShape
     else
       (case (if typ ts = Float16 then
                (case data ts of
                   F16Slice v \<Rightarrow> if int (length v) \<noteq> Len shape' then Inl ErrInvalidShape else Inr ()
                 | _ \<Rightarrow> Inl RuntimePanic)
              else if typ ts = Float32 then
                (case data ts of
                   F32Slice v \<Rightarrow> if int (length v) \<noteq> Len shape' then Inl ErrInvalidShape else Inr ()
                 | _ \<Rightarrow> Inl RuntimePanic)
              else if typ ts = Float64 then
                (case data ts of
                   F64Slice v \<Rightarrow> if int (length v) \<noteq> Len shape' then Inl ErrInvalidShape else Inr ()
                 | _ \<Rightarrow> Inl RuntimePanic)
              else Inr ()) of
          Inl e \<Rightarrow> Inl e
        | Inr _ \<Rightarrow>
            (case Strides shape' of
               Inl e \<Rightarrow> Inl e
             | Inr strides' \<Rightarrow>
                 Inr (ts\<lparr>shape := shape', strides := strides', rank := int (length shape')\<rparr>))))"

text \<open>
  Go's \<^verbatim>\<open>/\<close> and \<^verbatim>\<open>%\<close> on \<^verbatim>\<open>int\<close> truncate towards zero; a zero divisor panics and is
  checked by the caller. The one quotient outside the range, that of the least \<^verbatim>\<open>int\<close> by
  \<open>- 1\<close>, wraps; the remainder has the sign of the dividend and is smaller than the
  divisor in absolute value.
\<close>

definition quo :: "int \<Rightarrow> int \<Rightarrow> int" where
  "quo x y = wrap (sgn x * sgn y * (\<bar>x\<bar> div \<bar>y\<bar>))"

definition rem :: "int \<Rightarrow> int \<Rightarrow> int" where
  "rem x y = sgn x * (\<bar>x\<bar> mod \<bar>y\<bar>)"

text \<open>
  \<^verbatim>\<open>index\<close>: the loop variable \<^verbatim>\<open>i\<close> runs from \<^verbatim>\<open>len(ts.strides) - 1\<close> down to 0; the
  second argument of \<open>index_loop\<close> is \<^verbatim>\<open>i + 1\<close>.
\<close>

fun index_loop :: "int list \<Rightarrow> nat \<Rightarrow> int list \<Rightarrow> int \<Rightarrow> error + int list" where
  "index_loop strides' 0 idx off = Inr idx"
| "index_loop strides' (Suc i) idx off =
    (if i < length idx \<and> strides' ! i \<noteq> 0 then
       index_loop strides' i (idx[i := quo off (strides' ! i)]) (rem off (strides' ! i))
     else Inl RuntimePanic)"

definition index :: "Tensor \<Rightarrow> int \<Rightarrow> error + int list" where
  "index ts off =
    index_loop (strides ts) (length (strides ts)) (make (int (length (shape ts)))) off"

definition testOffset :: "Tensor \<Rightarrow> int \<Rightarrow> error + unit" where
  "testOffset ts off =
    (if off < 0 \<or> off > Len (shape ts) then Inl ErrIndexOutOfRange else Inr ())"

text \<open>\<^verbatim>\<open>offset\<close>: \<^verbatim>\<open>ts.strides[i]\<close> panics once the index is longer than the strides.\<close>

fun offset_loop :: "int list \<Rightarrow> int list \<Rightarrow> int \<Rightarrow> error + int" where
  "offset_loop strides' [] off = Inr off"
| "offset_loop [] (x # idx) off = Inl RuntimePanic"
| "offset_loop (s # strides') (x # idx) off =
    offset_loop strides' idx (wrap (off + wrap (s * x)))"

definition offset :: "Tensor \<Rightarrow> int list \<Rightarrow> error + int" where
  "offset ts idx = offset_loop (strides ts) idx 0"

fun testIndex_loop :: "int list \<Rightarrow> Shape \<Rightarrow> error + unit" where
  "testIndex_loop [] sh = Inr ()"
| "testIndex_loop (x # idx) [] = Inl RuntimePanic"
| "testIndex_loop (x # idx) (s # sh) =
    (if x < 0 \<or> x \<ge> s then Inl ErrIndexOutOfRange else testIndex_loop idx sh)"

definition testIndex :: "Tensor \<Rightarrow> int list \<Rightarrow> error + unit" where
  "testIndex ts idx =
    (if length idx \<noteq> length (shape ts) then Inl ErrDimMismatch
     else testIndex_loop idx (shape ts))"

text \<open>
  \<^verbatim>\<open>at\<close>: the type assertion on \<^verbatim>\<open>ts.data\<close>, then the read of the slice. \<^verbatim>\<open>get\<close> has the
  same \<^verbatim>\<open>switch\<close> after computing the offset.
\<close>

definition nth_slice :: "'a list \<Rightarrow> int \<Rightarrow> error + 'a" where
  "nth_slice v i = (if 0 \<le> i \<and> i < int (length v) then Inr (v ! nat i) else Inl RuntimePanic)"

definition at :: "Tensor \<Rightarrow> int \<Rightarrow> error + any" where
  "at ts off =
    (if typ ts = Float16 then
       (case data ts of
          F16Slice v \<Rightarrow> map_sum id AnyF16 (nth_slice v off)
        | _ \<Rightarrow> Inl RuntimePanic)
     else if typ ts = Float32 then
       (case data ts of
          F32Slice v \<Rightarrow> map_sum id AnyF32 (nth_slice v off)
        | _ \<Rightarrow> Inl RuntimePanic)
     else if typ ts = Float64 then
       (case data ts of
          F64Slice v \<Rightarrow> map_sum id AnyF64 (nth_slice v off)
        | _ \<Rightarrow> Inl RuntimePanic)
     else Inl ErrInvalidData)"

definition get :: "Tensor \<Rightarrow> int list \<Rightarrow> error + any" where
  "get ts idx = (case offset ts idx of Inl e \<Rightarrow> Inl e | Inr off \<Rightarrow> at ts off)"

definition Get :: "Tensor \<Rightarrow> int list \<Rightarrow> error + any" where
  "Get ts idx = (case testIndex ts idx of Inl e \<Rightarrow> Inl e | Inr _ \<Rightarrow> get ts idx)"

definition GetAt :: "Tensor \<Rightarrow> int \<Rightarrow> error + any" where
  "GetAt ts off = (case testOffset ts off of Inl e \<Rightarrow> Inl e | Inr _ \<Rightarrow> at ts off)"

text \<open>
  \<^verbatim>\<open>setAt\<close>: the type assertion on \<^verbatim>\<open>ts.data\<close>, then the one on \<^verbatim>\<open>value\<close>, then the write.
  The write is in place; the model returns the changed tensor. \<^verbatim>\<open>set\<close> has the same
  \<^verbatim>\<open>switch\<close> after computing the offset.
\<close>

definition update_slice :: "'a list \<Rightarrow> int \<Rightarrow> 'a \<Rightarrow> error + 'a list" where
  "update_slice v i x =
    (if 0 \<le> i \<and> i < int (length v) then Inr (v[nat i := x]) else Inl RuntimePanic)"

definition setAt :: "Tensor \<Rightarrow> int \<Rightarrow> any \<Rightarrow> error + Tensor" where
  "setAt ts off value =
    (if typ ts = Float16 then
       (case data ts of
          F16Slice v \<Rightarrow>
            (case value of
               AnyF16 x \<Rightarrow> map_sum id (\<lambda>v. ts\<lparr>data := F16Slice v\<rparr>) (update_slice v off x)
             | _ \<Rightarrow> Inl ErrTypeMismatch)
        | _ \<Rightarrow> Inl RuntimePanic)
     else if typ ts = Float32 then
       (case data ts of
          F32Slice v \<Rightarrow>
            (case value of
               AnyF32 x \<Rightarrow> map_sum id (\<lambda>v. ts\<lparr>data := F32Slice v\<rparr>) (update_slice v off x)
             | _ \<Rightarrow> Inl ErrTypeMismatch)
        | _ \<Rightarrow> Inl RuntimePanic)
     else if typ ts = Float64 then
       (case data ts of
          F64Slice v \<Rightarrow>
            (case value of
               AnyF64 x \<Rightarrow> map_sum id (\<lambda>v. ts\<lparr>data := F64Slice v\<rparr>) (update_slice v off x)
             | _ \<Rightarrow> Inl ErrTypeMismatch)
        | _ \<Rightarrow> Inl RuntimePanic)
     else Inl ErrInvalidData)"

definition SetAt :: "Tensor \<Rightarrow> int \<Rightarrow> any \<Rightarrow> error + Tensor" where
  "SetAt ts off value =
    (case testOffset ts off of Inl e \<Rightarrow> Inl e | Inr _ \<Rightarrow> setAt ts off value)"

definition set_t :: "Tensor \<Rightarrow> int list \<Rightarrow> any \<Rightarrow> error + Tensor" where
  "set_t ts idx value =
    (case offset ts idx of Inl e \<Rightarrow> Inl e | Inr off \<Rightarrow> setAt ts off value)"

definition Set :: "Tensor \<Rightarrow> int list \<Rightarrow> any \<Rightarrow> error + Tensor" where
  "Set ts idx value =
    (case testIndex ts idx of Inl e \<Rightarrow> Inl e | Inr _ \<Rightarrow> set_t ts idx value)"


text \<open>
  \<^verbatim>\<open>testKey\<close>: as \<^verbatim>\<open>testIndex\<close>, with \<open>- 1\<close> accepted on every axis.
\<close>

fun testKey_loop :: "int list \<Rightarrow> Shape \<Rightarrow> error + unit" where
  "testKey_loop [] sh = Inr ()"
| "testKey_loop (x # idx) [] = Inl RuntimePanic"
| "testKey_loop (x # idx) (s # sh) =
    (if x < - 1 \<or> x \<ge> s then Inl ErrIndexOutOfRange else testKey_loop idx sh)"

definition testKey :: "Tensor \<Rightarrow> int list \<Rightarrow> error + unit" where
  "testKey ts idx =
    (if length idx \<noteq> length (shape ts) then Inl ErrDimMismatch
     else testKey_loop idx (shape ts))"

text \<open>
  \<^verbatim>\<open>GetSub\<close>. Its first loop appends one axis per entry of the key; it runs after
  \<^verbatim>\<open>testKey\<close>, so \<^verbatim>\<open>ts.shape[i]\<close> is inside the shape. The arguments of \<open>GetSub_shape\<close>
  are what is left of the key and of \<^verbatim>\<open>ts.shape\<close>, and the shape built so far.
\<close>

fun GetSub_shape :: "int list \<Rightarrow> Shape \<Rightarrow> Shape \<Rightarrow> Shape" where
  "GetSub_shape (k # indexKey) (s # sh) shape' =
    GetSub_shape indexKey sh (shape' @ [if k = - 1 then s else 1])"
| "GetSub_shape indexKey sh shape' = shape'"

text \<open>\<^verbatim>\<open>copy(dst, src)\<close> overwrites the first \<^verbatim>\<open>min(len(dst), len(src))\<close> cells.\<close>

definition copy :: "'a list \<Rightarrow> 'a list \<Rightarrow> 'a list" where
  "copy dst src = take (min (length dst) (length src)) src @ drop (length src) dst"

text \<open>
  The inner loop of \<^verbatim>\<open>GetSub\<close> writes the fixed coordinates of the key into
  \<^verbatim>\<open>srcIndex\<close>, which was made with the length of the key.
\<close>

fun set_key :: "int list \<Rightarrow> int list \<Rightarrow> int list" where
  "set_key (k # indexKey) (x # srcIndex) = (if k \<noteq> - 1 then k else x) # set_key indexKey srcIndex"
| "set_key indexKey srcIndex = srcIndex"

function GetSub_loop ::
  "Tensor \<Rightarrow> int list \<Rightarrow> Tensor \<Rightarrow> int list \<Rightarrow> int \<Rightarrow> int \<Rightarrow> error + Tensor" where
  "GetSub_loop ts indexKey tensor srcIndex off length' =
    (if off < length' then
       (case index tensor off of
          Inl e \<Rightarrow> Inl e
        | Inr dstIndex \<Rightarrow>
            (let srcIndex = copy srcIndex dstIndex;
                 srcIndex = set_key indexKey srcIndex
             in case get ts srcIndex of
                  Inl e \<Rightarrow> Inl e
                | Inr v \<Rightarrow>
                    (case set_t tensor dstIndex v of
                       Inl e \<Rightarrow> Inl e
                     | Inr tensor \<Rightarrow> GetSub_loop ts indexKey tensor srcIndex (off + 1) length')))
     else Inr tensor)"
  by pat_completeness auto
termination
  by (relation "measure (\<lambda>(ts, indexKey, tensor, srcIndex, off, length'). nat (length' - off))") auto

declare GetSub_loop.simps [simp del]

definition GetSub :: "Tensor \<Rightarrow> int list \<Rightarrow> (error + Tensor) option" where
  "GetSub ts indexKey =
    (case testKey ts indexKey of
       Inl e \<Rightarrow> Some (Inl e)
     | Inr _ \<Rightarrow>
         (let shape' = GetSub_shape indexKey (shape ts) []
          in case NewTensor AnyNil (typ ts) shape' of
               None \<Rightarrow> None
             | Some (Inl e) \<Rightarrow> Some (Inl e)
             | Some (Inr tensor) \<Rightarrow>
                 Some (GetSub_loop ts indexKey tensor (make (int (length indexKey))) 0
                         (Len shape'))))"

text \<open>
  \<^verbatim>\<open>Tensor.Equal\<close>. The three loops differ in the element type only: \<open>ne\<close> is
  \<^verbatim>\<open>!=\<close> on that type.
\<close>

function Equal_data :: "('a \<Rightarrow> 'a \<Rightarrow> bool) \<Rightarrow> 'a list \<Rightarrow> 'a list \<Rightarrow> int \<Rightarrow> int \<Rightarrow> error + bool" where
  "Equal_data ne v o' i length' =
    (if i < length' then
       (case nth_slice v i of
          Inl e \<Rightarrow> Inl e
        | Inr x \<Rightarrow>
            (case nth_slice o' i of
               Inl e \<Rightarrow> Inl e
             | Inr y \<Rightarrow> if ne x y then Inr False else Equal_data ne v o' (i + 1) length'))
     else Inr True)"
  by pat_completeness auto
termination
  by (relation "measure (\<lambda>(ne, v, o', i, length'). nat (length' - i))") auto

declare Equal_data.simps [simp del]

definition Tensor_Equal :: "Tensor \<Rightarrow> Tensor \<Rightarrow> error + bool" where
  "Tensor_Equal ts other =
    (case Shape_Equal (shape ts) (shape other) of
       Inl e \<Rightarrow> Inl e
     | Inr eq \<Rightarrow>
         if \<not> eq then Inr False
         else if typ ts \<noteq> typ other then Inr False
         else if typ ts = Float16 then
           (case (data ts, data other) of
              (F16Slice v, F16Slice o') \<Rightarrow> Equal_data ne16 v o' 0 (Len (shape ts))
            | _ \<Rightarrow> Inl RuntimePanic)
         else if typ ts = Float32 then
           (case (data ts, data other) of
              (F32Slice v, F32Slice o') \<Rightarrow> Equal_data ne32 v o' 0 (Len (shape ts))
            | _ \<Rightarrow> Inl RuntimePanic)
         else if typ ts = Float64 then
           (case (data ts, data other) of
              (F64Slice v, F64Slice o') \<Rightarrow> Equal_data ne64 v o' 0 (Len (shape ts))
            | _ \<Rightarrow> Inl RuntimePanic)
         else Inr True)"

text \<open>
  \<^verbatim>\<open>String\<close>. \<^verbatim>\<open>fmt.Sprintf("%v", x)\<close> belongs to Go's library and is the parameter
  \<open>sprint\<close>. The slice \<^verbatim>\<open>index\<close> is shared by all levels of the recursion, so
  \<open>toString\<close> returns it with the string. \<open>emit_loop\<close> is the loop
  \<^verbatim>\<open>for i := 0; i < ts.shape[d]-1; i++ { index[d] = i; s += ... + ", " }\<close> of both branches,
  \<open>body\<close> being what is appended before the separator.
\<close>

function emit_loop ::
  "(int list \<Rightarrow> error + string \<times> int list) \<Rightarrow> nat \<Rightarrow> int \<Rightarrow> int \<Rightarrow> int list \<Rightarrow> string
    \<Rightarrow> error + string \<times> int list" where
  "emit_loop body d i n idx s =
    (if i < n then
       (if d < length idx then
          (case body (idx[d := i]) of
             Inl e \<Rightarrow> Inl e
           | Inr (r, idx) \<Rightarrow> emit_loop body d (i + 1) n idx (s @ r @ '', ''))
        else Inl RuntimePanic)
     else Inr (s, idx))"
  by pat_completeness auto
termination
  by (relation "measure (\<lambda>(body, d, i, n, idx, s). nat (n - i))") auto

declare emit_loop.simps [simp del]

definition emit_last ::
  "(int list \<Rightarrow> error + string \<times> int list) \<Rightarrow> nat \<Rightarrow> int \<Rightarrow> int list \<Rightarrow> string
    \<Rightarrow> error + string \<times> int list" where
  "emit_last body d n idx s =
    (if n > 0 then
       (if d < length idx then
          (case body (idx[d := n]) of
             Inl e \<Rightarrow> Inl e
           | Inr (r, idx) \<Rightarrow> Inr (s @ r, idx))
        else Inl RuntimePanic)
     else Inr (s, idx))"

function toString :: "(any \<Rightarrow> string) \<Rightarrow> Tensor \<Rightarrow> int \<Rightarrow> int list \<Rightarrow> error + string \<times> int list" where
  "toString sprint ts d idx =
    (let s = ''[''
     in if d < 0 \<or> d \<ge> Dim (shape ts) then Inl RuntimePanic
        else
          (let n = wrap (shape ts ! nat d - 1);
               body =
                 (if d = Dim (shape ts) - 1 then
                    (\<lambda>idx. map_sum id (\<lambda>v. (sprint v, idx)) (get ts idx))
                  else (\<lambda>idx. toString sprint ts (d + 1) idx))
           in case emit_loop body (nat d) 0 n idx s of
                Inl e \<Rightarrow> Inl e
              | Inr (s, idx) \<Rightarrow>
                  (case emit_last body (nat d) n idx s of
                     Inl e \<Rightarrow> Inl e
                   | Inr (s, idx) \<Rightarrow> Inr (s @ '']'', idx))))"
  by pat_completeness auto
termination
  by (relation "measure (\<lambda>(sprint, ts, d, idx). nat (Dim (shape ts) - d))") auto

declare toString.simps [simp del]

definition String :: "(any \<Rightarrow> string) \<Rightarrow> Tensor \<Rightarrow> error + string" where
  "String sprint ts = map_sum id fst (toString sprint ts 0 (make (Dim (shape ts))))"

section \<open>Well-formed tensors\<close>

text \<open>
  The tensors the package can build: the shape has at least one axis and positive
  sizes, the strides and the rank are the ones derived from the shape, and the buffer is a
  slice of the tagged precision with \<^verbatim>\<open>shape.Len()\<close> elements. \<^verbatim>\<open>NewTensor\<close> returns such
  a tensor; \<^verbatim>\<open>Reshape\<close> and a write inside the buffer keep it one. The strides and the
  element count are the ones the code computes, wrapped products: a tensor built on a
  shape whose product of sizes has wrapped to the length of its buffer is among them.
\<close>

fun slice_ok :: "Type \<Rightarrow> any \<Rightarrow> int \<Rightarrow> bool" where
  "slice_ok t (F16Slice v) n = (t = Float16 \<and> int (length v) = n)"
| "slice_ok t (F32Slice v) n = (t = Float32 \<and> int (length v) = n)"
| "slice_ok t (F64Slice v) n = (t = Float64 \<and> int (length v) = n)"
| "slice_ok t _ n = False"

definition wf_Tensor :: "Tensor \<Rightarrow> bool" where
  "wf_Tensor ts =
    (shape ts \<noteq> [] \<and> list_all (\<lambda>x. 0 < x) (shape ts) \<and>
     Strides (shape ts) = Inr (strides ts) \<and> rank ts = int (length (shape ts)) \<and>
     slice_ok (typ ts) (data ts) (Len (shape ts)))"


text \<open>
  A shape fits when the product of its sizes is within the range of \<^verbatim>\<open>int\<close>: no
  product \<^verbatim>\<open>Len\<close> or \<^verbatim>\<open>Strides\<close> takes of positive sizes wraps around then.
\<close>

definition fits :: "Shape \<Rightarrow> bool" where
  "fits sh = (prod_list sh < 2 ^ 63)"

text \<open>The strides derived from a shape that fits, in closed form.\<close>

abbreviation strides_of :: "Shape \<Rightarrow> int list" where
  "strides_of sh \<equiv> map (\<lambda>j. prod_list (take j sh)) [0..<length sh]"

text \<open>The length of the buffer, whatever its precision.\<close>

fun data_len :: "any \<Rightarrow> int" where
  "data_len (F16Slice v) = int (length v)"
| "data_len (F32Slice v) = int (length v)"
| "data_len (F64Slice v) = int (length v)"
| "data_len _ = 0"

text \<open>
  Two buffers of the same precision whose elements are pairwise equal under \<^verbatim>\<open>==\<close>, and
  a buffer that holds no NaN.
\<close>

fun elems_equal :: "any \<Rightarrow> any \<Rightarrow> bool" where
  "elems_equal (F16Slice v) (F16Slice o') = list_all2 (\<lambda>x y. \<not> ne16 x y) v o'"
| "elems_equal (F32Slice v) (F32Slice o') = list_all2 (\<lambda>x y. \<not> ne32 x y) v o'"
| "elems_equal (F64Slice v) (F64Slice o') = list_all2 (\<lambda>x y. \<not> ne64 x y) v o'"
| "elems_equal _ _ = False"

fun no_NaN :: "any \<Rightarrow> bool" where
  "no_NaN (F32Slice v) = list_all (\<lambda>x. \<not> isNaN32 x) v"
| "no_NaN (F64Slice v) = list_all (\<lambda>x. \<not> isNaN64 x) v"
| "no_NaN _ = True"

text \<open>A value of the element type that a tag stands for.\<close>

fun value_ok :: "Type \<Rightarrow> any \<Rightarrow> bool" where
  "value_ok t (AnyF16 x) = (t = Float16)"
| "value_ok t (AnyF32 x) = (t = Float32)"
| "value_ok t (AnyF64 x) = (t = Float64)"
| "value_ok t _ = False"

text \<open>
  The coordinate \<^verbatim>\<open>GetSub\<close> reads for a coordinate of its result: the result's own
  coordinate on the wildcard axes, the key's on the others.
\<close>

definition combine :: "int list \<Rightarrow> int list \<Rightarrow> int list" where
  "combine indexKey idx = map2 (\<lambda>k x. if k = - 1 then x else k) indexKey idx"

text \<open>
  The shape \<^verbatim>\<open>GetSub\<close> builds from a key, and the keys \<^verbatim>\<open>testKey\<close> accepts on a shape
  with positive sizes: one entry per axis, each \<open>- 1\<close> or a coordinate within its axis.
\<close>

abbreviation sub_shape :: "int list \<Rightarrow> Shape \<Rightarrow> Shape" where
  "sub_shape indexKey sh \<equiv> map2 (\<lambda>k s. if k = - 1 then s else 1) indexKey sh"

abbreviation key_ok :: "int list \<Rightarrow> Shape \<Rightarrow> bool" where
  "key_ok indexKey sh \<equiv> list_all2 (\<lambda>k s. k = - 1 \<or> (0 \<le> k \<and> k < s)) indexKey sh"

text \<open>A multi-index inside a shape: one coordinate per axis, each within its axis.\<close>

definition in_shape :: "Shape \<Rightarrow> int list \<Rightarrow> bool" where
  "in_shape sh idx = (length idx = length sh \<and> list_all2 (\<lambda>x s. 0 \<le> x \<and> x < s) idx sh)"

section \<open>Buffers in a store\<close>

text \<open>
  A tensor holds its buffer by reference: \<^verbatim>\<open>data\<close> is a slice, and \<^verbatim>\<open>setAt\<close> writes
  through it into the array behind. Where it matters which array a tensor holds, the
  arrays live in a store, the list of the arrays allocated so far, and a tensor names its
  buffer by its position in that list; \<^verbatim>\<open>make\<close> appends a new array. The shape and the
  strides of a tensor are never written cell by cell (\<^verbatim>\<open>Reshape\<close> replaces them) and stay
  values. \<open>cell\<close> reads an address, as \<^verbatim>\<open>nil\<close> where nothing was allocated, and \<open>deref\<close>
  reads the tensor a reference stands for: the operations that only read are the ones
  above on that tensor, and a write puts the changed buffer back at the address of the
  tensor it was made through.
\<close>

type_synonym store = "any list"

datatype TensorRef =
  TensorRef (ref_rank: int) (ref_data: nat) (ref_shape: Shape) (ref_typ: Type)
    (ref_strides: "int list")

definition cell :: "store \<Rightarrow> nat \<Rightarrow> any" where
  "cell st a = (if a < length st then st ! a else AnyNil)"

definition deref :: "store \<Rightarrow> TensorRef \<Rightarrow> Tensor" where
  "deref st r =
    \<lparr>rank = ref_rank r, data = cell st (ref_data r), shape = ref_shape r, typ = ref_typ r,
     strides = ref_strides r\<rparr>"

text \<open>The reference that stands for a tensor once its buffer is at an address.\<close>

definition ref_to :: "nat \<Rightarrow> Tensor \<Rightarrow> TensorRef" where
  "ref_to a t = TensorRef (rank t) a (shape t) (typ t) (strides t)"

text \<open>
  \<^verbatim>\<open>NewTensor\<close> in a store. The argument \<^verbatim>\<open>data\<close> is \<^verbatim>\<open>nil\<close> (\<open>None\<close>) or the address of
  a value of the store. Every \<^verbatim>\<open>make\<close> appends its array to the store, and \<^verbatim>\<open>data = aux\<close>
  makes the address of the new array the tensor's buffer; where the \<^verbatim>\<open>switch\<close> converts
  nothing the tensor keeps the caller's slice.
\<close>

definition init_tensor_ref ::
  "store \<Rightarrow> nat \<Rightarrow> Type \<Rightarrow> Shape \<Rightarrow> (error + store \<times> TensorRef) option" where
  "init_tensor_ref st data' typ' shape' =
    (case Strides shape' of
       Inl e \<Rightarrow> Some (Inl e)
     | Inr strides' \<Rightarrow>
         Some (Inr (st, TensorRef (int (length shape')) data' shape' typ' strides')))"

definition NewTensor_switch_ref ::
  "store \<Rightarrow> nat \<Rightarrow> Type \<Rightarrow> Shape \<Rightarrow> (error + store \<times> TensorRef) option" where
  "NewTensor_switch_ref st data' typ' shape' =
    (case cell st data' of
       F16Slice v \<Rightarrow>
         (if int (length v) \<noteq> Len shape' then Some (Inl ErrInvalidShape)
          else if typ' = Float32 then
            (case convert 4 ToF32 v of
               Inl e \<Rightarrow> Some (Inl e)
             | Inr aux \<Rightarrow>
                 (case those aux of
                    None \<Rightarrow> None
                  | Some aux \<Rightarrow> init_tensor_ref (st @ [F32Slice aux]) (length st) typ' shape'))
          else if typ' = Float64 then
            (case convert 8 ToF64 v of
               Inl e \<Rightarrow> Some (Inl e)
             | Inr aux \<Rightarrow>
                 (case those aux of
                    None \<Rightarrow> None
                  | Some aux \<Rightarrow> init_tensor_ref (st @ [F64Slice aux]) (length st) typ' shape'))
          else init_tensor_ref st data' typ' shape')
     | F64Slice v \<Rightarrow>
         (if int (length v) \<noteq> Len shape' then Some (Inl ErrInvalidShape)
          else if typ' = Float16 then
            (case convert 2 FF64 v of
               Inl e \<Rightarrow> Some (Inl e)
             | Inr aux \<Rightarrow> init_tensor_ref (st @ [F16Slice aux]) (length st) typ' shape')
          else if typ' = Float32 then
            (case convert 4 float32_of_float64 v of
               Inl e \<Rightarrow> Some (Inl e)
             | Inr aux \<Rightarrow> init_tensor_ref (st @ [F32Slice aux]) (length st) typ' shape')
          else init_tensor_ref st data' typ' shape')
     | F32Slice v \<Rightarrow>
         (if int (length v) \<noteq> Len shape' then Some (Inl ErrInvalidShape)
          else if typ' = Float16 then
            (case convert 2 FF32 v of
               Inl e \<Rightarrow> Some (Inl e)
             | Inr aux \<Rightarrow> init_tensor_ref (st @ [F16Slice aux]) (length st) typ' shape')
          else if typ' = Float64 then
            (case convert 8 float64_of_float32 v of
               Inl e \<Rightarrow> Some (Inl e)
             | Inr aux \<Rightarrow> init_tensor_ref (st @ [F64Slice aux]) (length st) typ' shape')
          else init_tensor_ref st data' typ' shape')
     | _ \<Rightarrow> Some (Inl ErrInvalidData))"

definition NewTensor_ref ::
  "store \<Rightarrow> nat option \<Rightarrow> Type \<Rightarrow> Shape \<Rightarrow> (error + store \<times> TensorRef) option" where
  "NewTensor_ref st data' typ' shape' =
    (if typ' \<noteq> Float16 \<and> typ' \<noteq> Float32 \<and> typ' \<noteq> Float64 then Some (Inl ErrTypeMismatch)
     else if list_ex (\<lambda>x. x \<le> 0) shape' then Some (Inl ErrInvalidShape)
     else
       (case data' of
          None \<Rightarrow>
            (case (if typ' = Float16 then map_sum id F16Slice (makeslice 2 (Len shape'))
                   else if typ' = Float64 then map_sum id F32Slice (makeslice 4 (Len shape'))
                   else map_sum id F64Slice (makeslice 8 (Len shape'))) of
               Inl e \<Rightarrow> Some (Inl e)
             | Inr v \<Rightarrow> NewTensor_switch_ref (st @ [v]) (length st) typ' shape')
        | Some a \<Rightarrow> NewTensor_switch_ref st a typ' shape'))"

definition get_ref :: "store \<Rightarrow> TensorRef \<Rightarrow> int list \<Rightarrow> error + any" where
  "get_ref st ts idx = get (deref st ts) idx"

definition Get_ref :: "store \<Rightarrow> TensorRef \<Rightarrow> int list \<Rightarrow> error + any" where
  "Get_ref st ts idx = Get (deref st ts) idx"

definition set_ref :: "store \<Rightarrow> TensorRef \<Rightarrow> int list \<Rightarrow> any \<Rightarrow> error + store" where
  "set_ref st ts idx value =
    (case set_t (deref st ts) idx value of
       Inl e \<Rightarrow> Inl e
     | Inr t \<Rightarrow> Inr (st[ref_data ts := data t]))"

text \<open>
  \<^verbatim>\<open>GetSub\<close> in a store: the loop reads the source through \<^verbatim>\<open>ts\<close> and writes through
  \<^verbatim>\<open>tensor\<close>, and the store it leaves is returned with the new tensor.
\<close>

function GetSub_ref_loop ::
  "store \<Rightarrow> TensorRef \<Rightarrow> int list \<Rightarrow> TensorRef \<Rightarrow> int list \<Rightarrow> int \<Rightarrow> int \<Rightarrow> error + store" where
  "GetSub_ref_loop st ts indexKey tensor srcIndex off length' =
    (if off < length' then
       (case index (deref st tensor) off of
          Inl e \<Rightarrow> Inl e
        | Inr dstIndex \<Rightarrow>
            (let srcIndex = copy srcIndex dstIndex;
                 srcIndex = set_key indexKey srcIndex
             in case get_ref st ts srcIndex of
                  Inl e \<Rightarrow> Inl e
                | Inr v \<Rightarrow>
                    (case set_ref st tensor dstIndex v of
                       Inl e \<Rightarrow> Inl e
                     | Inr st \<Rightarrow>
                         GetSub_ref_loop st ts indexKey tensor srcIndex (off + 1) length')))
     else Inr st)"
  by pat_completeness auto
termination
  by (relation "measure (\<lambda>(st, ts, indexKey, tensor, srcIndex, off, length'). nat (length' - off))")
    auto

declare GetSub_ref_loop.simps [simp del]

definition GetSub_ref ::
  "store \<Rightarrow> TensorRef \<Rightarrow> int list \<Rightarrow> (error + store \<times> TensorRef) option" where
  "GetSub_ref st ts indexKey =
    (case testKey (deref st ts) indexKey of
       Inl e \<Rightarrow> Some (Inl e)
     | Inr _ \<Rightarrow>
         (let shape' = GetSub_shape indexKey (ref_shape ts) []
          in case NewTensor_ref st None (ref_typ ts) shape' of
               None \<Rightarrow> None
             | Some (Inl e) \<Rightarrow> Some (Inl e)
             | Some (Inr (st, tensor)) \<Rightarrow>
                 Some (map_sum id (\<lambda>st. (st, tensor))
                         (GetSub_ref_loop st ts indexKey tensor (make (int (length indexKey))) 0
                            (Len shape')))))"

section \<open>The codec: underflow of \<^verbatim>\<open>FF64\<close>\<close>

text \<open>
  Claim C1: for a \<^verbatim>\<open>float64\<close> whose rebiased exponent \<^verbatim>\<open>sexp\<close> is at most 0, \<^verbatim>\<open>FF64\<close>
  returns the sign in bit 15, a zero exponent field, and as mantissa the source mantissa
  shifted right by 42 and by \<^verbatim>\<open>1 - sexp\<close> more bits. The source shifts by
  \<^verbatim>\<open>1 - sexp\<close> and then by 13, the constant of \<^verbatim>\<open>FF32\<close>, where the other branches of
  \<^verbatim>\<open>FF64\<close> shift by 42. At the pattern \<open>0x3F0FFFFFFFFFFFFF\<close> (exponent field 1008, so
  \<^verbatim>\<open>sexp = 0\<close>, sign 0) the result is \<open>0xFFFF\<close>: sign bit and exponent field are set,
  where the claim gives \<open>0x01FF\<close>.
\<close>

theorem FF64_underflow_at_failing_input:
  "drop_bit 52 (0x3F0FFFFFFFFFFFFF :: 64 word) AND 0x7ff = 1008 \<and>
   FF64 0x3F0FFFFFFFFFFFFF = 0xFFFF \<and>
   FF64 0x3F0FFFFFFFFFFFFF AND expMask = 0x7C00 \<and>
   FF64 0x3F0FFFFFFFFFFFFF AND signMask = 0x8000 \<and>
   (ucast (drop_bit (42 + 1) ((0x3F0FFFFFFFFFFFFF :: 64 word) AND 0xfffffffffffff)) :: 16 word)
     = 0x01FF"
  by (simp add: FF64_def expMask_def signMask_def)

section \<open>Wrap-around\<close>

lemma wrap_mod: "wrap x mod 2 ^ 64 = x mod 2 ^ 64"
  by (simp add: wrap_def mod_diff_left_eq)

lemma wrap_cong: "x mod 2 ^ 64 = y mod 2 ^ 64 \<Longrightarrow> wrap x = wrap y"
proof -
  assume "x mod 2 ^ 64 = y mod 2 ^ 64"
  then have "(x + 2 ^ 63) mod 2 ^ 64 = (y + 2 ^ 63) mod 2 ^ 64"
    by (rule mod_add_cong) simp
  then show ?thesis by (simp add: wrap_def)
qed

lemma wrap_id: "- (2 ^ 63) \<le> x \<Longrightarrow> x < 2 ^ 63 \<Longrightarrow> wrap x = x"
  by (simp add: wrap_def)

lemma wrap_range: "- (2 ^ 63) \<le> wrap x" "wrap x < 2 ^ 63"
proof -
  have "0 \<le> (x + 2 ^ 63) mod 2 ^ 64" "(x + 2 ^ 63) mod 2 ^ 64 < 2 ^ 64"
    by simp_all
  then show "- (2 ^ 63) \<le> wrap x" "wrap x < 2 ^ 63"
    by (simp_all add: wrap_def)
qed

lemma wrap_wrap: "wrap (wrap x) = wrap x"
  by (rule wrap_cong) (rule wrap_mod)

lemma wrap_mult_left: "wrap (wrap a * b) = wrap (a * b)"
  by (rule wrap_cong) (rule mod_mult_cong [OF wrap_mod refl])

lemma wrap_add_left: "wrap (wrap a + b) = wrap (a + b)"
  by (rule wrap_cong) (rule mod_add_cong [OF wrap_mod refl])

lemma wrap_add_right: "wrap (a + wrap b) = wrap (a + b)"
  by (rule wrap_cong) (rule mod_add_cong [OF refl wrap_mod])

lemma wrap_eq_0_iff: "wrap x = 0 \<longleftrightarrow> 2 ^ 64 dvd x"
proof
  assume "wrap x = 0"
  then have "x mod 2 ^ 64 = 0" using wrap_mod [of x] by simp
  then show "2 ^ 64 dvd x" by (simp add: dvd_eq_mod_eq_0)
next
  assume "2 ^ 64 dvd x"
  then have "x mod 2 ^ 64 = 0 mod 2 ^ 64" by (simp add: dvd_eq_mod_eq_0)
  then have "wrap x = wrap 0" by (rule wrap_cong)
  then show "wrap x = 0" by (simp add: wrap_def)
qed

lemma wrap_1: "wrap 1 = 1"
  by (simp add: wrap_def)

section \<open>Shapes: closed forms of the loops\<close>

lemma Len_loop_eq:
  "i \<le> length sh \<Longrightarrow> wrap ln = ln \<Longrightarrow> Len_loop sh i ln = wrap (ln * prod_list (drop i sh))"
proof (induction sh i ln rule: Len_loop.induct)
  case (1 sh i ln)
  show ?case
  proof (cases "i < length sh")
    case True
    then have "drop i sh = sh ! i # drop (Suc i) sh"
      by (simp add: Cons_nth_drop_Suc)
    with True 1 show ?thesis
      by (subst Len_loop.simps) (simp add: wrap_wrap wrap_mult_left mult.assoc)
  next
    case False
    with 1 show ?thesis
      by (subst Len_loop.simps) simp
  qed
qed

lemma Len_eq: "Len sh = wrap (prod_list sh)"
  by (simp add: Len_def Len_loop_eq wrap_1)

lemma StrideOf_loop_eq:
  "i \<le> c \<Longrightarrow> c = length sh \<Longrightarrow> wrap stride = stride \<Longrightarrow>
   StrideOf_loop sh i c stride = wrap (stride * prod_list (drop i sh))"
proof (induction sh i c stride rule: StrideOf_loop.induct)
  case (1 sh i c stride)
  show ?case
  proof (cases "i < c")
    case True
    then have "drop i sh = sh ! i # drop (Suc i) sh"
      using 1 by (simp add: Cons_nth_drop_Suc)
    with True 1 show ?thesis
      by (subst StrideOf_loop.simps) (simp add: wrap_wrap wrap_mult_left mult.assoc)
  next
    case False
    with 1 show ?thesis
      by (subst StrideOf_loop.simps) simp
  qed
qed

lemma StrideOf_eq: "StrideOf sh dim = wrap (prod_list (drop 1 sh))"
proof (cases sh)
  case Nil
  have "StrideOf_loop [] 1 0 1 = 1"
    by (subst StrideOf_loop.simps) simp
  with Nil show ?thesis
    by (simp add: StrideOf_def wrap_1)
next
  case (Cons x xs)
  then show ?thesis
    by (simp add: StrideOf_def StrideOf_loop_eq wrap_1)
qed

lemma Strides_loop_eq:
  "0 < i \<Longrightarrow> i \<le> c \<Longrightarrow> c = length ss \<Longrightarrow> length sh = c \<Longrightarrow>
   \<forall>j < i. ss ! j = wrap (prod_list (take j sh)) \<Longrightarrow>
   Strides_loop sh i c ss = map (\<lambda>j. wrap (prod_list (take j sh))) [0..<c]"
proof (induction sh i c ss rule: Strides_loop.induct)
  case (1 sh i c ss)
  show ?case
  proof (cases "i < c")
    case True
    let ?s = "ss[i := wrap (ss ! (i - 1) * sh ! (i - 1))]"
    have tk: "take i sh = take (i - 1) sh @ [sh ! (i - 1)]"
      using True 1(2,5) by (metis Suc_diff_1 Suc_lessD take_Suc_conv_app_nth)
    have "\<forall>j < Suc i. ?s ! j = wrap (prod_list (take j sh))"
    proof (intro allI impI)
      fix j assume "j < Suc i"
      show "?s ! j = wrap (prod_list (take j sh))"
      proof (cases "j = i")
        case True
        then show ?thesis using 1(2-6) \<open>i < c\<close> tk by (simp add: wrap_mult_left)
      next
        case False
        then show ?thesis using 1(6) \<open>j < Suc i\<close> by simp
      qed
    qed
    with True 1 show ?thesis
      by (subst Strides_loop.simps) simp
  next
    case False
    with 1 have "i = c" by simp
    with 1 False show ?thesis
      by (subst Strides_loop.simps) (auto intro!: nth_equalityI)
  qed
qed

lemma Strides_eq:
  assumes "sh \<noteq> []"
  shows "Strides sh = Inr (map (\<lambda>j. wrap (prod_list (take j sh))) [0..<length sh])"
proof -
  let ?s = "(replicate (length sh) 0)[0 := 1::int]"
  have "\<forall>j < Suc 0. ?s ! j = wrap (prod_list (take j sh))"
    using assms by (simp add: wrap_1)
  then have "Strides_loop sh (Suc 0) (length ?s) ?s =
      map (\<lambda>j. wrap (prod_list (take j sh))) [0..<length ?s]"
    using assms by (intro Strides_loop_eq) (simp_all add: Suc_le_eq)
  then show ?thesis
    using assms by (simp add: Strides_def Let_def)
qed

lemma Strides_Nil: "Strides [] = Inl RuntimePanic"
  by (simp add: Strides_def)

text \<open>Positive sizes whose product fits: no partial product wraps.\<close>

lemma prod_list_pos: "list_all (\<lambda>x. 0 < x) sh \<Longrightarrow> 0 < prod_list (sh :: int list)"
  by (induction sh) simp_all

lemma prod_take_pos:
  "list_all (\<lambda>x. 0 < x) sh \<Longrightarrow> 0 < prod_list (take n (sh :: int list))"
proof (induction sh arbitrary: n)
  case Nil
  then show ?case by simp
next
  case (Cons a sh)
  then show ?case by (cases n) simp_all
qed

lemma prod_drop_pos:
  "list_all (\<lambda>x. 0 < x) sh \<Longrightarrow> 0 < prod_list (drop n (sh :: int list))"
  by (rule prod_list_pos) (auto simp: list_all_iff dest: in_set_dropD)

lemma prod_take_le:
  assumes "list_all (\<lambda>x. 0 < x) (sh :: int list)"
  shows "prod_list (take n sh) \<le> prod_list sh"
proof -
  have "prod_list sh = prod_list (take n sh) * prod_list (drop n sh)"
    by (metis append_take_drop_id prod_list.append)
  moreover have "1 \<le> prod_list (drop n sh)" "0 < prod_list (take n sh)"
    using prod_drop_pos [OF assms, of n] prod_take_pos [OF assms, of n] by simp_all
  ultimately show ?thesis
    by (simp add: mult_le_cancel_left1)
qed

lemma prod_drop_le:
  assumes "list_all (\<lambda>x. 0 < x) (sh :: int list)"
  shows "prod_list (drop n sh) \<le> prod_list sh"
proof -
  have "prod_list sh = prod_list (take n sh) * prod_list (drop n sh)"
    by (metis append_take_drop_id prod_list.append)
  moreover have "0 < prod_list (drop n sh)" "1 \<le> prod_list (take n sh)"
    using prod_drop_pos [OF assms, of n] prod_take_pos [OF assms, of n] by simp_all
  ultimately show ?thesis
    by (simp add: mult_le_cancel_right2)
qed

lemma wrap_prod_take:
  assumes "list_all (\<lambda>x. 0 < x) sh" "fits sh"
  shows "wrap (prod_list (take n sh)) = prod_list (take n sh)"
proof -
  have "0 < prod_list (take n sh)" using assms(1) by (rule prod_take_pos)
  moreover have "prod_list (take n sh) < 2 ^ 63"
    using prod_take_le [OF assms(1), of n] assms(2) by (simp add: fits_def)
  ultimately show ?thesis by (simp add: wrap_id)
qed

lemma wrap_prod_drop:
  assumes "list_all (\<lambda>x. 0 < x) sh" "fits sh"
  shows "wrap (prod_list (drop n sh)) = prod_list (drop n sh)"
proof -
  have "0 < prod_list (drop n sh)" using assms(1) by (rule prod_drop_pos)
  moreover have "prod_list (drop n sh) < 2 ^ 63"
    using prod_drop_le [OF assms(1), of n] assms(2) by (simp add: fits_def)
  ultimately show ?thesis by (simp add: wrap_id)
qed

lemma Len_fits: "list_all (\<lambda>x. 0 < x) sh \<Longrightarrow> fits sh \<Longrightarrow> Len sh = prod_list sh"
  using wrap_prod_take [of sh "length sh"] by (simp add: Len_eq)

lemma Strides_fits:
  "sh \<noteq> [] \<Longrightarrow> list_all (\<lambda>x. 0 < x) sh \<Longrightarrow> fits sh \<Longrightarrow> Strides sh = Inr (strides_of sh)"
  by (simp add: Strides_eq wrap_prod_take)

lemma Equal_loop_eq:
  "length other = length sh \<Longrightarrow> i \<le> length sh \<Longrightarrow>
   Equal_loop sh other i = Inr (drop i sh = drop i other)"
proof (induction sh other i rule: Equal_loop.induct)
  case (1 sh other i)
  show ?case
  proof (cases "i < length sh")
    case True
    then have "drop i sh = sh ! i # drop (Suc i) sh" "drop i other = other ! i # drop (Suc i) other"
      using 1 by (simp_all add: Cons_nth_drop_Suc)
    with True 1 show ?thesis
      by (subst Equal_loop.simps) simp
  next
    case False
    with 1 show ?thesis
      by (subst Equal_loop.simps) simp
  qed
qed

lemma Shape_Equal_same_rank:
  "length other = length sh \<Longrightarrow> Shape_Equal sh other = Inr (sh = other)"
  by (auto simp: Shape_Equal_def Equal_loop_eq)

text \<open>
  Claim C2: \<^verbatim>\<open>Shape.Equal\<close> returns normally on every pair of shapes and is true exactly
  when rank and sizes agree. The source compares the element counts and then reads
  \<^verbatim>\<open>other[i]\<close> for every axis of \<^verbatim>\<open>sh\<close>, without comparing the ranks: on \<open>[2, 1]\<close>
  against \<open>[2]\<close> the read of \<^verbatim>\<open>other[1]\<close> is outside the slice and panics, and on
  \<open>[2]\<close> against \<open>[2, 1]\<close> the answer is true for shapes of different rank.
\<close>

theorem Shape_Equal_at_failing_input:
  "Shape_Equal [2, 1] [2] = Inl RuntimePanic \<and> Shape_Equal [2] [2, 1] = Inr True"
  by code_simp

text \<open>
  Claim C9: \<^verbatim>\<open>StrideOf(axis)\<close> is the product of the sizes strictly after the axis and
  equals \<^verbatim>\<open>Strides()[axis]\<close>. On the shape \<open>[2, 3]\<close> the derived strides are \<open>[1, 2]\<close>,
  the products of the sizes before each axis, and \<^verbatim>\<open>StrideOf\<close> is 3 on both axes: at
  axis 0 it is the product after the axis and differs from the derived stride 1, at
  axis 1 it is neither the product after the axis (1) nor the derived stride (2). The
  products are taken in \<^verbatim>\<open>int\<close>: on the shape \<open>[2 ^ 32, 2 ^ 32, 2]\<close> the stride of axis 2
  is 0 where the product of the sizes before it is \<open>2 ^ 64\<close>, and \<^verbatim>\<open>StrideOf(0)\<close> is 0 on
  \<open>[1, 2 ^ 32, 2 ^ 32]\<close>.
\<close>

theorem StrideOf_Strides_counterexample:
  "StrideOf [2, 3] 0 = prod_list (drop (Suc 0) [2, 3]) \<and>
   Strides [2, 3] = Inr [1, 2] \<and>
   StrideOf [2, 3] 0 \<noteq> [1, 2] ! 0 \<and>
   StrideOf [2, 3] 1 \<noteq> prod_list (drop (Suc 1) [2, 3]) \<and>
   StrideOf [2, 3] 1 \<noteq> [1, 2] ! 1 \<and>
   Strides [4294967296, 4294967296, 2] = Inr [1, 4294967296, 0] \<and>
   prod_list (take 2 [4294967296, 4294967296, 2 :: int]) = 18446744073709551616 \<and>
   StrideOf [1, 4294967296, 4294967296] 0 = 0 \<and>
   prod_list (drop 1 [1, 4294967296, 4294967296 :: int]) = 18446744073709551616"
  by (simp add: StrideOf_eq Strides_eq wrap_def)

text \<open>
  Claim C9 as amended: for a shape with at least one axis, \<^verbatim>\<open>Strides()\<close> returns one
  stride per axis, the stride of an axis being the product of the sizes strictly before
  it (1 for axis 0), and \<^verbatim>\<open>StrideOf(0)\<close> is the product of the sizes strictly after axis
  0, each product wrapped to the 64 bits of \<^verbatim>\<open>int\<close>; for positive sizes whose product
  fits they are the products themselves.
\<close>

theorem Strides_products_before:
  assumes "sh \<noteq> []" and "axis < length sh"
  shows "\<exists>ss. Strides sh = Inr ss \<and> length ss = length sh \<and>
               ss ! axis = wrap (prod_list (take axis sh)) \<and> ss ! 0 = 1 \<and>
               StrideOf sh 0 = wrap (prod_list (drop 1 sh)) \<and>
               (list_all (\<lambda>x. 0 < x) sh \<and> fits sh \<longrightarrow>
                  ss ! axis = prod_list (take axis sh) \<and>
                  StrideOf sh 0 = prod_list (drop 1 sh))"
  using assms by (simp add: Strides_eq StrideOf_eq wrap_1 wrap_prod_take wrap_prod_drop)

text \<open>The amended claim C9 on the shape \<open>[2, 3, 4]\<close> at axis 2.\<close>

theorem Strides_products_before_witness:
  "\<exists>ss. Strides [2, 3, 4] = Inr ss \<and> length ss = length [2, 3, 4 :: int] \<and>
        ss ! 2 = prod_list (take 2 [2, 3, 4]) \<and> ss ! 0 = 1 \<and>
        StrideOf [2, 3, 4] 0 = prod_list (drop 1 [2, 3, 4])"
proof -
  have "[2, 3, 4] \<noteq> ([] :: int list)" "2 < length [2, 3, 4 :: int]"
    "list_all (\<lambda>x. 0 < x) [2, 3, 4 :: int] \<and> fits [2, 3, 4]"
    by (simp_all add: fits_def)
  with Strides_products_before [of "[2, 3, 4]" 2] show ?thesis
    by auto
qed

section \<open>Tensors: construction and flat offsets\<close>

lemmas Type_defs = Float16_def Float32_def Float64_def

lemma Type_distinct [simp]:
  "Float16 \<noteq> Float32" "Float16 \<noteq> Float64" "Float32 \<noteq> Float16"
  "Float32 \<noteq> Float64" "Float64 \<noteq> Float16" "Float64 \<noteq> Float32"
  by (simp_all add: Type_defs)

lemma Len_pos: "list_all (\<lambda>x. 0 < x) sh \<Longrightarrow> fits sh \<Longrightarrow> 0 < Len sh"
  by (simp add: Len_fits prod_list_pos)

lemma list_ex_nonpos: "list_all (\<lambda>x. 0 < x) sh \<Longrightarrow> \<not> list_ex (\<lambda>x. x \<le> 0) (sh :: int list)"
  by (induction sh) auto

lemma length_make: "0 \<le> n \<Longrightarrow> int (length (make n)) = n"
  by (simp add: make_def)

lemma float64_of_float32_zero: "float64_of_float32 0 = 0"
  by (simp add: float64_of_float32_def)

lemma float32_of_float64_zero: "float32_of_float64 0 = 0"
  by (simp add: float32_of_float64_def round_float32_def)

lemma makeslice_ok:
  "0 \<le> n \<Longrightarrow> elemsize * n \<le> maxAlloc \<Longrightarrow> makeslice elemsize n = Inr (replicate (nat n) 0)"
  by (simp add: makeslice_def)

lemma convert_ok:
  "elemsize * int (length v) \<le> maxAlloc \<Longrightarrow> convert elemsize f v = Inr (map f v)"
  by (simp add: convert_def)

lemma init_tensor_ok:
  "shape' \<noteq> [] \<Longrightarrow>
   init_tensor d t shape' =
     Some (Inr \<lparr>rank = int (length shape'), data = d, shape = shape', typ = t,
                strides = map (\<lambda>j. wrap (prod_list (take j shape'))) [0..<length shape']\<rparr>)"
  by (simp add: init_tensor_def Strides_eq)

lemma NewTensor_nil_Float16:
  assumes "shape' \<noteq> []" "list_all (\<lambda>x. 0 < x) shape'" "0 \<le> Len shape'"
    "2 * Len shape' \<le> maxAlloc"
  shows "NewTensor AnyNil Float16 shape' =
     Some (Inr \<lparr>rank = int (length shape'), data = F16Slice (replicate (nat (Len shape')) 0),
                shape = shape', typ = Float16,
                strides = map (\<lambda>j. wrap (prod_list (take j shape'))) [0..<length shape']\<rparr>)"
  using assms
  by (simp add: NewTensor_def NewTensor_switch_def list_ex_nonpos makeslice_ok init_tensor_ok)

lemma NewTensor_nil_Float32:
  assumes "shape' \<noteq> []" "list_all (\<lambda>x. 0 < x) shape'" "0 \<le> Len shape'"
    "8 * Len shape' \<le> maxAlloc"
  shows "NewTensor AnyNil Float32 shape' =
     Some (Inr \<lparr>rank = int (length shape'), data = F32Slice (replicate (nat (Len shape')) 0),
                shape = shape', typ = Float32,
                strides = map (\<lambda>j. wrap (prod_list (take j shape'))) [0..<length shape']\<rparr>)"
  using assms
  by (simp add: NewTensor_def NewTensor_switch_def
      list_ex_nonpos makeslice_ok convert_ok init_tensor_ok
      float32_of_float64_zero)

lemma NewTensor_nil_Float64:
  assumes "shape' \<noteq> []" "list_all (\<lambda>x. 0 < x) shape'" "0 \<le> Len shape'"
    "8 * Len shape' \<le> maxAlloc"
  shows "NewTensor AnyNil Float64 shape' =
     Some (Inr \<lparr>rank = int (length shape'), data = F64Slice (replicate (nat (Len shape')) 0),
                shape = shape', typ = Float64,
                strides = map (\<lambda>j. wrap (prod_list (take j shape'))) [0..<length shape']\<rparr>)"
  using assms
  by (simp add: NewTensor_def NewTensor_switch_def
      list_ex_nonpos makeslice_ok convert_ok init_tensor_ok
      float64_of_float32_zero)

lemma wf_Tensor_cases:
  assumes "wf_Tensor ts"
  obtains (F16) v where "typ ts = Float16" "data ts = F16Slice v" "int (length v) = Len (shape ts)"
  | (F32) v where "typ ts = Float32" "data ts = F32Slice v" "int (length v) = Len (shape ts)"
  | (F64) v where "typ ts = Float64" "data ts = F64Slice v" "int (length v) = Len (shape ts)"
  using assms unfolding wf_Tensor_def
  by (cases "data ts") auto

lemma data_len_wf: "wf_Tensor ts \<Longrightarrow> data_len (data ts) = Len (shape ts)"
  by (erule wf_Tensor_cases) simp_all

lemma Len_wf_nonneg: "wf_Tensor ts \<Longrightarrow> 0 \<le> Len (shape ts)"
  by (erule wf_Tensor_cases) linarith+

lemma wf_Tensor_strides:
  "wf_Tensor ts \<Longrightarrow> fits (shape ts) \<Longrightarrow> strides ts = strides_of (shape ts)"
  by (auto simp: wf_Tensor_def Strides_fits)

lemma at_in_range:
  assumes "wf_Tensor ts" "0 \<le> k" "k < Len (shape ts)"
  shows "\<exists>v. at ts k = Inr v"
  using assms(1)
proof (cases rule: wf_Tensor_cases)
  case (F16 v)
  then show ?thesis using assms(2,3) by (simp add: at_def nth_slice_def)
next
  case (F32 v)
  then show ?thesis using assms(2,3) by (simp add: at_def nth_slice_def)
next
  case (F64 v)
  then show ?thesis using assms(2,3) by (simp add: at_def nth_slice_def)
qed

lemma at_Len:
  assumes "wf_Tensor ts"
  shows "at ts (Len (shape ts)) = Inl RuntimePanic"
  using assms(1)
proof (cases rule: wf_Tensor_cases)
  case (F16 v)
  then show ?thesis by (simp add: at_def nth_slice_def)
next
  case (F32 v)
  then show ?thesis by (simp add: at_def nth_slice_def)
next
  case (F64 v)
  then show ?thesis by (simp add: at_def nth_slice_def)
qed

lemma GetAt_in_range:
  "wf_Tensor ts \<Longrightarrow> 0 \<le> k \<Longrightarrow> k < Len (shape ts) \<Longrightarrow> \<exists>v. GetAt ts k = Inr v"
  using at_in_range [of ts k] by (simp add: GetAt_def testOffset_def)

lemma GetAt_outside:
  "k < 0 \<or> Len (shape ts) < k \<Longrightarrow> GetAt ts k = Inl ErrIndexOutOfRange"
  by (auto simp: GetAt_def testOffset_def)

lemma GetAt_Len:
  "wf_Tensor ts \<Longrightarrow> GetAt ts (Len (shape ts)) = Inl RuntimePanic"
  using Len_wf_nonneg [of ts]
  by (simp add: GetAt_def testOffset_def at_Len)

text \<open>
  Claim C3: \<^verbatim>\<open>GetAt(k)\<close> and \<^verbatim>\<open>SetAt(k, value)\<close> fail with \<^verbatim>\<open>ErrIndexOutOfRange\<close> exactly
  when \<open>k < 0\<close> or \<open>k \<ge> shape.Len()\<close>, and succeed for every other \<open>k\<close>. \<^verbatim>\<open>testOffset\<close>
  rejects \<^verbatim>\<open>offset > ts.shape.Len()\<close>, where \<^verbatim>\<open>testIndex\<close> rejects
  \<^verbatim>\<open>index[i] >= ts.shape[i]\<close>: the offset \<^verbatim>\<open>shape.Len()\<close> passes the check and the read or
  write of the slice panics with Go's own index error. On the \<^verbatim>\<open>Float64\<close> tensor that
  \<^verbatim>\<open>NewTensor\<close> builds from two zeros and the shape \<open>[2]\<close>, offset 2 passes \<^verbatim>\<open>testOffset\<close> and both operations end in \<open>RuntimePanic\<close>;
  offset 3 is rejected as the claim says.
\<close>

theorem GetAt_SetAt_at_failing_input:
  "NewTensor (F64Slice [0, 0]) Float64 [2] =
     Some (Inr \<lparr>rank = 1, data = F64Slice [0, 0], shape = [2], typ = Float64, strides = [1]\<rparr>) \<and>
   wf_Tensor \<lparr>rank = 1, data = F64Slice [0, 0], shape = [2], typ = Float64, strides = [1]\<rparr> \<and>
   Len [2] = 2 \<and>
   testOffset \<lparr>rank = 1, data = F64Slice [0, 0], shape = [2], typ = Float64, strides = [1]\<rparr> 2
     = Inr () \<and>
   GetAt \<lparr>rank = 1, data = F64Slice [0, 0], shape = [2], typ = Float64, strides = [1]\<rparr> 2
     = Inl RuntimePanic \<and>
   SetAt \<lparr>rank = 1, data = F64Slice [0, 0], shape = [2], typ = Float64, strides = [1]\<rparr> 2 (AnyF64 0)
     = Inl RuntimePanic \<and>
   GetAt \<lparr>rank = 1, data = F64Slice [0, 0], shape = [2], typ = Float64, strides = [1]\<rparr> 3
     = Inl ErrIndexOutOfRange"
  by (simp add: wf_Tensor_def Strides_eq Len_eq wrap_def GetAt_def SetAt_def testOffset_def at_def
      setAt_def nth_slice_def update_slice_def NewTensor_def NewTensor_switch_def
          init_tensor_def Type_defs)

lemma NewTensor_nil_wf:
  assumes "typ' = Float16 \<or> typ' = Float32 \<or> typ' = Float64"
    and "shape' \<noteq> []" and "list_all (\<lambda>x. 0 < x) shape'"
    and "0 \<le> Len shape'" and "(if typ' = Float16 then 2 else 8) * Len shape' \<le> maxAlloc"
  shows "\<exists>ts. NewTensor AnyNil typ' shape' = Some (Inr ts) \<and> wf_Tensor ts \<and>
              typ ts = typ' \<and> shape ts = shape' \<and> rank ts = int (length shape') \<and>
              data ts =
                (if typ' = Float16 then F16Slice (replicate (nat (Len shape')) 0)
                 else if typ' = Float32 then F32Slice (replicate (nat (Len shape')) 0)
                 else F64Slice (replicate (nat (Len shape')) 0))"
proof -
  from assms(1) show ?thesis
  proof (elim disjE)
    assume "typ' = Float16"
    then show ?thesis
      using assms(2-5)
      by (simp add: NewTensor_nil_Float16 wf_Tensor_def Strides_eq)
  next
    assume "typ' = Float32"
    then show ?thesis
      using assms(2-5)
      by (simp add: NewTensor_nil_Float32 wf_Tensor_def Strides_eq)
  next
    assume "typ' = Float64"
    then show ?thesis
      using assms(2-5)
      by (simp add: NewTensor_nil_Float64 wf_Tensor_def Strides_eq)
  qed
qed

text \<open>
  Claim C4: for every tag and every shape whose sizes are all positive, \<^verbatim>\<open>NewTensor\<close>
  with \<^verbatim>\<open>nil\<close> data returns a tensor with a zero buffer of \<^verbatim>\<open>shape.Len()\<close> elements of the
  tag's precision. The shape with no axis has only positive sizes and \<^verbatim>\<open>Len() = 1\<close>, but
  \<^verbatim>\<open>shape.Strides()\<close> writes \<^verbatim>\<open>strides[0]\<close> into an empty slice and panics. The shape
  \<open>[2 ^ 62, 2]\<close> has positive sizes and \<^verbatim>\<open>Len() = - 2 ^ 63\<close>, the wrapped product:
  \<^verbatim>\<open>make\<close> panics on the negative length. The shape \<open>[2 ^ 62]\<close> has
  \<^verbatim>\<open>Len() = 2 ^ 62\<close>, a length \<^verbatim>\<open>makeslice\<close> refuses.
\<close>

theorem NewTensor_nil_counterexample:
  "list_all (\<lambda>x. 0 < x) ([] :: int list) \<and>
   NewTensor AnyNil Float64 [] = Some (Inl RuntimePanic) \<and>
   list_all (\<lambda>x. 0 < x) [4611686018427387904, 2 :: int] \<and>
   Len [4611686018427387904, 2] = - 9223372036854775808 \<and>
   NewTensor AnyNil Float64 [4611686018427387904, 2] = Some (Inl RuntimePanic) \<and>
   Len [4611686018427387904] = 4611686018427387904 \<and>
   NewTensor AnyNil Float64 [4611686018427387904] = Some (Inl RuntimePanic)"
  by (simp add: NewTensor_def NewTensor_switch_def
      Len_eq wrap_def makeslice_def maxAlloc_def convert_def init_tensor_def
      Strides_Nil Type_defs)

text \<open>
  Claim C4 as amended: for every tag among \<^verbatim>\<open>Float16\<close>, \<^verbatim>\<open>Float32\<close>, \<^verbatim>\<open>Float64\<close> and every
  shape with at least one axis and positive sizes whose \<^verbatim>\<open>Len()\<close>, the wrapped product
  of the sizes, is not negative and is a length \<^verbatim>\<open>makeslice\<close> accepts (at 2 bytes an
  element for \<^verbatim>\<open>Float16\<close> and at 8 bytes for the two other tags, one of whose two
  allocations is a \<^verbatim>\<open>[]float64\<close>), \<^verbatim>\<open>NewTensor(nil, typ, shape)\<close> returns a well-formed
  tensor of that tag and shape whose buffer is a slice of the tag's precision holding
  \<^verbatim>\<open>shape.Len()\<close> zeros.
\<close>

theorem NewTensor_nil:
  assumes "typ' = Float16 \<or> typ' = Float32 \<or> typ' = Float64"
    and "shape' \<noteq> []" and "list_all (\<lambda>x. 0 < x) shape'"
    and "0 \<le> Len shape'" and "(if typ' = Float16 then 2 else 8) * Len shape' \<le> maxAlloc"
  shows "\<exists>ts. NewTensor AnyNil typ' shape' = Some (Inr ts) \<and> wf_Tensor ts \<and>
              typ ts = typ' \<and> shape ts = shape' \<and>
              data ts =
                (if typ' = Float16 then F16Slice (replicate (nat (Len shape')) 0)
                 else if typ' = Float32 then F32Slice (replicate (nat (Len shape')) 0)
                 else F64Slice (replicate (nat (Len shape')) 0)) \<and>
              data_len (data ts) = Len shape'"
proof -
  from NewTensor_nil_wf [OF assms]
  obtain ts where ts: "NewTensor AnyNil typ' shape' = Some (Inr ts)" "wf_Tensor ts"
    "typ ts = typ'" "shape ts = shape'"
    "data ts =
      (if typ' = Float16 then F16Slice (replicate (nat (Len shape')) 0)
       else if typ' = Float32 then F32Slice (replicate (nat (Len shape')) 0)
       else F64Slice (replicate (nat (Len shape')) 0))"
    by blast
  moreover have "data_len (data ts) = Len shape'"
    using ts(2,4) data_len_wf [of ts] by simp
  ultimately show ?thesis by blast
qed

text \<open>
  The amended claim C4 at the tag \<^verbatim>\<open>Float32\<close> and the shape \<open>[2, 3]\<close>, and at the shape
  \<open>[2 ^ 32, 2 ^ 32]\<close>, whose \<^verbatim>\<open>Len()\<close> has wrapped to 0: the buffer is empty.
\<close>

theorem NewTensor_nil_witness:
  "NewTensor AnyNil Float32 [2, 3] =
     Some (Inr \<lparr>rank = 2, data = F32Slice [0, 0, 0, 0, 0, 0], shape = [2, 3], typ = Float32,
                strides = [1, 2]\<rparr>) \<and>
   NewTensor AnyNil Float32 [4294967296, 4294967296] =
     Some (Inr \<lparr>rank = 2, data = F32Slice [], shape = [4294967296, 4294967296], typ = Float32,
                strides = [1, 4294967296]\<rparr>)"
proof -
  have ty: "Float32 = Float16 \<or> Float32 = Float32 \<or> Float32 = Float64" by simp
  have a: "Len [2, 3] = 6" "Len [4294967296, 4294967296] = 0"
    by (simp_all add: Len_eq wrap_def)
  have "[2, 3] \<noteq> ([] :: int list)" "list_all (\<lambda>x. 0 < x) [2, 3 :: int]" "0 \<le> Len [2, 3]"
    "(if Float32 = Float16 then 2 else 8) * Len [2, 3] \<le> maxAlloc"
    by (simp_all add: a maxAlloc_def)
  from NewTensor_nil [OF ty this]
  obtain ts where ts: "NewTensor AnyNil Float32 [2, 3] = Some (Inr ts)" "wf_Tensor ts"
    "typ ts = Float32" "shape ts = [2, 3]"
    "data ts = F32Slice (replicate (nat (Len [2, 3])) 0)"
    by auto
  have "data ts = F32Slice [0, 0, 0, 0, 0, 0]"
    using ts(5) by (simp add: a numeral_eq_Suc)
  moreover have "strides ts = [1, 2]" "rank ts = 2"
    using ts(2,4) by (simp_all add: wf_Tensor_def Strides_eq wrap_def)
  ultimately have "ts = \<lparr>rank = 2, data = F32Slice [0, 0, 0, 0, 0, 0], shape = [2, 3],
      typ = Float32, strides = [1, 2]\<rparr>"
    using ts(3,4) by (cases ts) simp
  with ts(1) have one: "NewTensor AnyNil Float32 [2, 3] =
     Some (Inr \<lparr>rank = 2, data = F32Slice [0, 0, 0, 0, 0, 0], shape = [2, 3], typ = Float32,
                strides = [1, 2]\<rparr>)"
    by simp
  have "[4294967296, 4294967296] \<noteq> ([] :: int list)"
    "list_all (\<lambda>x. 0 < x) [4294967296, 4294967296 :: int]"
    "0 \<le> Len [4294967296, 4294967296]"
    "(if Float32 = Float16 then 2 else 8) * Len [4294967296, 4294967296] \<le> maxAlloc"
    by (simp_all add: a maxAlloc_def)
  from NewTensor_nil [OF ty this]
  obtain t2 where t2: "NewTensor AnyNil Float32 [4294967296, 4294967296] = Some (Inr t2)"
    "wf_Tensor t2" "typ t2 = Float32" "shape t2 = [4294967296, 4294967296]"
    "data t2 = F32Slice (replicate (nat (Len [4294967296, 4294967296])) 0)"
    by auto
  have "data t2 = F32Slice []"
    using t2(5) by (simp add: a)
  moreover have "strides t2 = [1, 4294967296]" "rank t2 = 2"
    using t2(2,4) by (simp_all add: wf_Tensor_def Strides_eq wrap_def)
  ultimately have "t2 = \<lparr>rank = 2, data = F32Slice [], shape = [4294967296, 4294967296],
      typ = Float32, strides = [1, 4294967296]\<rparr>"
    using t2(3,4) by (cases t2) simp
  with t2(1) one show ?thesis by simp
qed

section \<open>Reshape\<close>

lemma Reshape_ok:
  assumes "wf_Tensor ts" "shape' \<noteq> []" "list_all (\<lambda>x. 0 < x) shape'"
    "Len shape' = data_len (data ts)"
  shows "Reshape ts shape' =
    Inr (ts\<lparr>shape := shape',
             strides := map (\<lambda>j. wrap (prod_list (take j shape'))) [0..<length shape'],
             rank := int (length shape')\<rparr>)"
  using assms(1)
proof (cases rule: wf_Tensor_cases)
  case (F16 v)
  then show ?thesis using assms(2-4)
    by (simp add: Reshape_def list_ex_nonpos Strides_eq)
next
  case (F32 v)
  then show ?thesis using assms(2-4)
    by (simp add: Reshape_def list_ex_nonpos Strides_eq)
next
  case (F64 v)
  then show ?thesis using assms(2-4)
    by (simp add: Reshape_def list_ex_nonpos Strides_eq)
qed

text \<open>
  Claim C6: for every tensor and every new shape with positive sizes whose element count
  is the length of the buffer, \<^verbatim>\<open>Reshape\<close> succeeds and changes shape, strides and rank
  only. The shape with no axis has only positive sizes and \<^verbatim>\<open>Len() = 1\<close>, the length of
  the buffer of a tensor of shape \<open>[1]\<close>, but \<^verbatim>\<open>shape.Strides()\<close> panics on it.
\<close>

theorem Reshape_counterexample:
  "wf_Tensor \<lparr>rank = 1, data = F64Slice [0], shape = [1], typ = Float64, strides = [1]\<rparr> \<and>
   list_all (\<lambda>x. 0 < x) ([] :: int list) \<and>
   Len [] = data_len (data \<lparr>rank = 1, data = F64Slice [0], shape = [1], typ = Float64,
                              strides = [1]\<rparr>) \<and>
   Reshape \<lparr>rank = 1, data = F64Slice [0], shape = [1], typ = Float64, strides = [1]\<rparr> []
     = Inl RuntimePanic"
  by (simp add: wf_Tensor_def Strides_eq Strides_Nil Len_eq wrap_def Reshape_def)

text \<open>
  Claim C6 as amended: for every well-formed tensor and every new shape with at least one
  axis and positive sizes whose element count is the length of the buffer, \<^verbatim>\<open>Reshape\<close>
  succeeds; the new tensor has the new shape, the strides derived from it and its rank;
  buffer and tag are unchanged, \<^verbatim>\<open>GetAt(k)\<close> gives the same result before and after for
  every \<open>k\<close>, and a value for every \<open>k\<close> from 0 below the element count.
\<close>

theorem Reshape_frame:
  assumes "wf_Tensor ts" and "shape' \<noteq> []" and "list_all (\<lambda>x. 0 < x) shape'"
    and "Len shape' = data_len (data ts)"
  shows "\<exists>ts'. Reshape ts shape' = Inr ts' \<and> wf_Tensor ts' \<and>
               shape ts' = shape' \<and> Strides shape' = Inr (strides ts') \<and>
               rank ts' = int (length shape') \<and>
               data ts' = data ts \<and> typ ts' = typ ts \<and>
               (\<forall>k. GetAt ts' k = GetAt ts k) \<and>
               (\<forall>k. 0 \<le> k \<and> k < Len shape' \<longrightarrow> (\<exists>v. GetAt ts k = Inr v))"
proof -
  let ?ts' = "ts\<lparr>shape := shape',
                 strides := map (\<lambda>j. wrap (prod_list (take j shape'))) [0..<length shape'],
                 rank := int (length shape')\<rparr>"
  have len: "Len shape' = Len (shape ts)"
    using assms(1,4) by (simp add: data_len_wf)
  have r: "Reshape ts shape' = Inr ?ts'"
    using assms by (rule Reshape_ok)
  have wf: "wf_Tensor ?ts'"
    using assms(1-3) len by (simp add: wf_Tensor_def Strides_eq)
  have get: "GetAt ?ts' k = GetAt ts k" for k
    using len by (simp add: GetAt_def testOffset_def at_def)
  have ok: "\<exists>v. GetAt ts k = Inr v" if "0 \<le> k \<and> k < Len shape'" for k
    using that assms(1) len by (simp add: GetAt_in_range)
  show ?thesis
    using r wf get ok assms(2) by (simp add: Strides_eq)
qed

text \<open>The amended claim C6 on four doubles of shape \<open>[4]\<close>, reshaped to \<open>[2, 2]\<close>.\<close>

theorem Reshape_frame_witness:
  "\<exists>ts'. Reshape \<lparr>rank = 1, data = F64Slice [1, 2, 3, 4], shape = [4], typ = Float64,
                    strides = [1]\<rparr> [2, 2] = Inr ts' \<and>
         shape ts' = [2, 2] \<and> data ts' = F64Slice [1, 2, 3, 4] \<and>
         GetAt ts' 3 = GetAt \<lparr>rank = 1, data = F64Slice [1, 2, 3, 4], shape = [4],
                                typ = Float64, strides = [1]\<rparr> 3"
proof -
  let ?ts = "\<lparr>rank = 1, data = F64Slice [1, 2, 3, 4], shape = [4], typ = Float64,
               strides = [1]\<rparr>"
  have "wf_Tensor ?ts" "[2, 2] \<noteq> ([] :: int list)" "list_all (\<lambda>x. 0 < x) [2, 2 :: int]"
    "Len [2, 2] = data_len (data ?ts)"
    by (simp_all add: wf_Tensor_def Strides_eq Len_eq wrap_def)
  from Reshape_frame [OF this] show ?thesis
    by auto
qed

section \<open>Flat offsets and multi-indices\<close>

lemma div_le_self_int: "0 \<le> x \<Longrightarrow> 0 < y \<Longrightarrow> x div y \<le> (x :: int)"
  using zdiv_mono2 [of x 1 y] by simp

lemma quo_rem_exact:
  assumes "0 \<le> x" "x < 2 ^ 63" "y \<noteq> 0"
  shows "y * quo x y + rem x y = x" "0 \<le> rem x y" "rem x y \<le> x"
proof -
  let ?d = "x div \<bar>y\<bar>"
  have y: "0 < \<bar>y\<bar>" using assms(3) by simp
  have d: "0 \<le> ?d" "?d \<le> x"
    using assms(1) y by (simp_all add: pos_imp_zdiv_nonneg_iff div_le_self_int)
  have "\<bar>sgn x * sgn y * ?d\<bar> \<le> x"
    using d by (simp add: abs_mult abs_sgn_eq)
  then have "- (2 ^ 63) \<le> sgn x * sgn y * ?d" "sgn x * sgn y * ?d < 2 ^ 63"
    using assms(2) by linarith+
  then have q: "quo x y = sgn x * sgn y * ?d"
    using assms(1) by (simp add: quo_def wrap_id)
  have r: "rem x y = x mod \<bar>y\<bar>"
    using assms(1) by (cases "x = 0") (simp_all add: rem_def)
  have e: "y * (sgn x * sgn y * ?d) = \<bar>y\<bar> * ?d"
  proof (cases "x = 0")
    case True
    then show ?thesis by simp
  next
    case False
    then have "sgn x = 1" using assms(1) by simp
    then show ?thesis by (simp add: abs_sgn mult.commute mult.left_commute)
  qed
  show "y * quo x y + rem x y = x"
    unfolding q r e by simp
  show "0 \<le> rem x y" using y by (simp add: r)
  show "rem x y \<le> x" using assms(1) y by (simp add: r zmod_le_nonneg_dividend)
qed

lemma quo_rem_nonneg:
  assumes "0 \<le> x" "x < 2 ^ 63" "0 < y"
  shows "quo x y = x div y" "rem x y = x mod y"
proof -
  have d: "0 \<le> x div y" "x div y \<le> x"
    using assms(1,3) by (simp_all add: pos_imp_zdiv_nonneg_iff div_le_self_int)
  then have "wrap (x div y) = x div y"
    using assms(2) by (intro wrap_id) linarith+
  then show "quo x y = x div y"
    using assms by (cases "x = 0") (simp_all add: quo_def)
  show "rem x y = x mod y"
    using assms by (cases "x = 0") (simp_all add: rem_def)
qed

lemma prod_take_Suc:
  "n < length sh \<Longrightarrow> prod_list (take (Suc n) sh) = prod_list (take n sh) * (sh ! n :: int)"
  by (simp add: take_Suc_conv_app_nth)

text \<open>
  \<^verbatim>\<open>index\<close> on any strides that are not zero: the quotients it stores and the remainder
  it is left with add up to the offset it was given.
\<close>

lemma index_loop_sum:
  assumes "\<forall>i<length ss. ss ! i \<noteq> 0"
  shows "n \<le> length ss \<Longrightarrow> n \<le> length idx \<Longrightarrow> 0 \<le> off \<Longrightarrow> off < 2 ^ 63 \<Longrightarrow>
    \<exists>res r. index_loop ss n idx off = Inr res \<and> length res = length idx \<and>
            (\<forall>j\<ge>n. res ! j = idx ! j) \<and> 0 \<le> r \<and> r \<le> off \<and>
            (\<Sum>i<n. ss ! i * res ! i) + r = off \<and> (0 < n \<and> ss ! 0 = 1 \<longrightarrow> r = 0)"
proof (induction n arbitrary: idx off)
  case 0
  then show ?case by simp
next
  case (Suc m)
  let ?s = "ss ! m"
  let ?q = "quo off ?s" and ?r = "rem off ?s"
  have m: "m < length ss" "m < length idx" using Suc.prems by simp_all
  have s: "?s \<noteq> 0" using assms m(1) by simp
  have qr: "?s * ?q + ?r = off" "0 \<le> ?r" "?r \<le> off"
    using quo_rem_exact [OF Suc.prems(3,4) s] by simp_all
  have step: "index_loop ss (Suc m) idx off = index_loop ss m (idx[m := ?q]) ?r"
    using m s by simp
  have "?r < 2 ^ 63" using qr(3) Suc.prems(4) by linarith
  from Suc.IH [of "idx[m := ?q]" ?r] m qr(2) this
  obtain res r where res: "index_loop ss m (idx[m := ?q]) ?r = Inr res"
    "length res = length idx" "\<forall>j\<ge>m. res ! j = idx[m := ?q] ! j"
    "0 \<le> r" "r \<le> ?r" "(\<Sum>i<m. ss ! i * res ! i) + r = ?r"
    "0 < m \<and> ss ! 0 = 1 \<longrightarrow> r = 0"
    by auto
  have resm: "res ! m = ?q" using res(3) m by simp
  have "\<forall>j\<ge>Suc m. res ! j = idx ! j" using res(3) by simp
  moreover have "(\<Sum>i<Suc m. ss ! i * res ! i) + r = off"
    using res(6) resm qr(1) by simp
  moreover have "r \<le> off" using res(5) qr(3) by linarith
  moreover have "r = 0" if "ss ! 0 = 1"
  proof (cases "m = 0")
    case True
    then have "?r = 0" using that by (simp add: rem_def)
    then show ?thesis using res(4,5) by simp
  next
    case False
    then show ?thesis using res(7) that by simp
  qed
  ultimately show ?case
    using step res(1,2,4) by auto
qed

lemma offset_loop_sum:
  "length idx \<le> length ss \<Longrightarrow> wrap acc = acc \<Longrightarrow>
   offset_loop ss idx acc = Inr (wrap (acc + (\<Sum>i<length idx. ss ! i * idx ! i)))"
proof (induction ss idx acc rule: offset_loop.induct)
  case (1 ss off)
  then show ?case by simp
next
  case (2 x idx off)
  then show ?case by simp
next
  case (3 s ss x idx off)
  have "wrap (wrap (off + wrap (s * x)) + (\<Sum>i<length idx. ss ! i * idx ! i)) =
      wrap (off + s * x + (\<Sum>i<length idx. ss ! i * idx ! i))"
    by (simp only: wrap_add_left wrap_add_right)
  with 3 show ?case
    by (simp add: wrap_wrap sum.lessThan_Suc_shift add.assoc del: sum.lessThan_Suc)
qed

lemma wrap_prod_take_nonzero:
  assumes "wrap (prod_list sh) \<noteq> 0"
  shows "wrap (prod_list (take j sh)) \<noteq> 0"
proof
  assume "wrap (prod_list (take j sh)) = 0"
  then have "2 ^ 64 dvd prod_list (take j sh)" by (simp add: wrap_eq_0_iff)
  moreover have "prod_list sh = prod_list (take j sh) * prod_list (drop j sh)"
    by (metis append_take_drop_id prod_list.append)
  ultimately have "2 ^ 64 dvd prod_list sh" by simp
  with assms show False by (simp add: wrap_eq_0_iff)
qed

lemma index_offset_wrapped:
  assumes "wf_Tensor ts" and "0 \<le> k" and "k < Len (shape ts)"
  shows "\<exists>idx. index ts k = Inr idx \<and> length idx = length (shape ts) \<and> offset ts idx = Inr k"
proof -
  let ?sh = "shape ts"
  let ?ss = "map (\<lambda>j. wrap (prod_list (take j ?sh))) [0..<length ?sh]"
  have sh: "?sh \<noteq> []" "strides ts = ?ss"
    using assms(1) by (auto simp: wf_Tensor_def Strides_eq)
  have "wrap (prod_list ?sh) \<noteq> 0"
    using assms(2,3) by (simp add: Len_eq)
  then have nz: "\<forall>i<length ?ss. ?ss ! i \<noteq> 0"
    by (simp add: wrap_prod_take_nonzero)
  have one: "?ss ! 0 = 1" using sh(1) by (simp add: wrap_1)
  have k: "k < 2 ^ 63"
    using assms(3) wrap_range(2) [of "prod_list ?sh"] by (simp add: Len_eq)
  from index_loop_sum [OF nz _ _ assms(2) k, of "length ?ss" "make (int (length ?sh))"]
  obtain idx r where idx: "index_loop ?ss (length ?ss) (make (int (length ?sh))) k = Inr idx"
    "length idx = length ?sh" "(\<Sum>i<length ?ss. ?ss ! i * idx ! i) + r = k"
    "0 < length ?ss \<and> ?ss ! 0 = 1 \<longrightarrow> r = 0"
    by (auto simp: make_def)
  have "r = 0" using idx(4) one sh(1) by simp
  then have sum: "(\<Sum>i<length idx. ?ss ! i * idx ! i) = k"
    using idx(2,3) by simp
  have "offset_loop ?ss idx 0 = Inr (wrap (0 + (\<Sum>i<length idx. ?ss ! i * idx ! i)))"
    using idx(2) by (intro offset_loop_sum) (simp_all add: wrap_def)
  then have "offset ts idx = Inr (wrap k)"
    by (simp add: offset_def sh(2) sum)
  moreover have "wrap k = k" using assms(2) k by (simp add: wrap_id)
  moreover have "index ts k = Inr idx"
    using idx(1) by (simp add: index_def sh(2))
  ultimately show ?thesis using idx(2) by simp
qed

text \<open>On a shape that fits, the multi-index is within the shape.\<close>

lemma index_loop_valid:
  assumes "list_all (\<lambda>x. 0 < x) sh" "fits sh"
  shows "n \<le> length sh \<Longrightarrow> n \<le> length idx \<Longrightarrow> 0 \<le> off \<Longrightarrow> off < prod_list (take n sh) \<Longrightarrow>
    \<exists>res. index_loop (strides_of sh) n idx off = Inr res \<and> length res = length idx \<and>
          (\<forall>j\<ge>n. res ! j = idx ! j) \<and> (\<forall>i<n. 0 \<le> res ! i \<and> res ! i < sh ! i) \<and>
          (\<Sum>i<n. prod_list (take i sh) * res ! i) = off"
proof (induction n arbitrary: idx off)
  case 0
  then show ?case by simp
next
  case (Suc m)
  let ?S = "prod_list (take m sh)"
  let ?q = "off div ?S" and ?r = "off mod ?S"
  have S: "0 < ?S" using assms(1) by (rule prod_take_pos)
  have m: "m < length sh" "m < length idx" using Suc.prems by simp_all
  have nth: "strides_of sh ! m = ?S" using m by simp
  have lt: "off < ?S * sh ! m"
    using Suc.prems(4) m by (simp add: prod_take_Suc)
  have big: "off < 2 ^ 63"
    using Suc.prems(4) prod_take_le [OF assms(1), of "Suc m"] assms(2) by (simp add: fits_def)
  have r: "0 \<le> ?r" "?r < ?S" using S by simp_all
  have "?S * ?q + ?r = off" by simp
  with r have "?S * ?q < ?S * sh ! m" using lt by linarith
  then have q2: "?q < sh ! m" using S by (simp add: mult_less_cancel_left_pos)
  have q1: "0 \<le> ?q" using S Suc.prems(3) by (simp add: pos_imp_zdiv_nonneg_iff)
  note q = q1 q2
  have step: "index_loop (strides_of sh) (Suc m) idx off =
      index_loop (strides_of sh) m (idx[m := ?q]) ?r"
    using m S nth quo_rem_nonneg [OF Suc.prems(3) big S] by (simp del: nth_map)
  from Suc.IH [of "idx[m := ?q]" ?r] m r
  obtain res where res: "index_loop (strides_of sh) m (idx[m := ?q]) ?r = Inr res"
    "length res = length idx" "\<forall>j\<ge>m. res ! j = idx[m := ?q] ! j"
    "\<forall>i<m. 0 \<le> res ! i \<and> res ! i < sh ! i"
    "(\<Sum>i<m. prod_list (take i sh) * res ! i) = ?r"
    by auto
  have resm: "res ! m = ?q" using res(3) m by simp
  have "\<forall>j\<ge>Suc m. res ! j = idx ! j" using res(3) by simp
  moreover have "\<forall>i<Suc m. 0 \<le> res ! i \<and> res ! i < sh ! i"
    using res(4) resm q by (auto simp: less_Suc_eq)
  moreover have "(\<Sum>i<Suc m. prod_list (take i sh) * res ! i) = off"
    using res(5) resm by simp
  ultimately show ?case
    using step res(1,2) by simp
qed

lemma sum_strides_of:
  "n \<le> length sh \<Longrightarrow>
   (\<Sum>i<n. strides_of sh ! i * f i) = (\<Sum>i<n. prod_list (take i sh) * f i)"
  by (rule sum.cong) simp_all

lemma testIndex_loop_ok:
  "length idx = length sh \<Longrightarrow> \<forall>i<length sh. 0 \<le> idx ! i \<and> idx ! i < sh ! i \<Longrightarrow>
   testIndex_loop idx sh = Inr ()"
proof (induction idx sh rule: testIndex_loop.induct)
  case (1 sh)
  then show ?case by simp
next
  case (2 x idx)
  then show ?case by simp
next
  case (3 x idx s sh)
  from 3(3) have "0 \<le> x \<and> x < s" by fastforce
  moreover from 3(3) have "\<forall>i<length sh. 0 \<le> idx ! i \<and> idx ! i < sh ! i" by fastforce
  ultimately show ?case using 3 by simp
qed

lemma wf_Tensor_shape:
  "wf_Tensor ts \<Longrightarrow> fits (shape ts) \<Longrightarrow>
   shape ts \<noteq> [] \<and> list_all (\<lambda>x. 0 < x) (shape ts) \<and> strides ts = strides_of (shape ts)"
  using wf_Tensor_strides [of ts] by (simp add: wf_Tensor_def)

lemma index_in_shape:
  assumes "wf_Tensor ts" and "fits (shape ts)" and "0 \<le> k" and "k < Len (shape ts)"
    and "index ts k = Inr idx"
  shows "testIndex ts idx = Inr ()"
proof -
  let ?sh = "shape ts"
  have sh: "?sh \<noteq> []" "list_all (\<lambda>x. 0 < x) ?sh" "strides ts = strides_of ?sh"
    using assms(1,2) by (simp_all add: wf_Tensor_shape)
  have "k < prod_list (take (length ?sh) ?sh)"
    using assms(4) sh(2) assms(2) by (simp add: Len_fits)
  from index_loop_valid [OF sh(2) assms(2) _ _ assms(3) this, of "make (int (length ?sh))"]
  obtain res where res: "index ts k = Inr res" "length res = length ?sh"
    "\<forall>i<length ?sh. 0 \<le> res ! i \<and> res ! i < ?sh ! i"
    by (auto simp: index_def sh(3) make_def)
  then have "res = idx" using assms(5) by simp
  then show ?thesis
    using res(2,3) by (simp add: testIndex_def testIndex_loop_ok)
qed

lemma index_offset_ok:
  assumes "wf_Tensor ts" and "fits (shape ts)" and "0 \<le> k" and "k < Len (shape ts)"
  shows "\<exists>idx. index ts k = Inr idx \<and> offset ts idx = Inr k \<and> testIndex ts idx = Inr ()"
proof -
  from index_offset_wrapped [OF assms(1,3,4)]
  obtain idx where idx: "index ts k = Inr idx" "offset ts idx = Inr k" by blast
  moreover have "testIndex ts idx = Inr ()"
    using assms idx(1) by (rule index_in_shape)
  ultimately show ?thesis by blast
qed

text \<open>
  A tensor whose shape does not fit: \<^verbatim>\<open>NewTensor\<close> accepts six doubles with a shape
  whose product of sizes wraps to 6. Its last two strides are negative, and the
  multi-index of the flat offset 5 has negative coordinates.
\<close>

lemma index_outside_wrapped_shape:
  "NewTensor (F64Slice [0, 0, 0, 0, 0, 0]) Float64
       [4294967295, 4294967297, 2, 9223372036854775805] =
     Some (Inr \<lparr>rank = 4, data = F64Slice [0, 0, 0, 0, 0, 0],
                shape = [4294967295, 4294967297, 2, 9223372036854775805], typ = Float64,
                strides = [1, 4294967295, - 1, - 2]\<rparr>) \<and>
   index \<lparr>rank = 4, data = F64Slice [0, 0, 0, 0, 0, 0],
          shape = [4294967295, 4294967297, 2, 9223372036854775805], typ = Float64,
          strides = [1, 4294967295, - 1, - 2]\<rparr> 5 = Inr [0, 0, - 1, - 2] \<and>
   offset \<lparr>rank = 4, data = F64Slice [0, 0, 0, 0, 0, 0],
           shape = [4294967295, 4294967297, 2, 9223372036854775805], typ = Float64,
           strides = [1, 4294967295, - 1, - 2]\<rparr> [0, 0, - 1, - 2] = Inr 5 \<and>
   testIndex \<lparr>rank = 4, data = F64Slice [0, 0, 0, 0, 0, 0],
              shape = [4294967295, 4294967297, 2, 9223372036854775805], typ = Float64,
              strides = [1, 4294967295, - 1, - 2]\<rparr> [0, 0, - 1, - 2] = Inl ErrIndexOutOfRange"
  by (simp add: NewTensor_def NewTensor_switch_def
      Len_eq wrap_def init_tensor_def Strides_eq index_def make_def
      quo_def rem_def offset_def testIndex_def Type_defs numeral_eq_Suc)

text \<open>
  Claim C5: for every tensor with a valid shape and every flat offset \<open>k\<close> from 0 below
  \<^verbatim>\<open>shape.Len()\<close>, \<^verbatim>\<open>index(k)\<close> returns a multi-index and \<^verbatim>\<open>offset\<close> of that multi-index
  returns \<open>k\<close>, also where the products of the sizes have wrapped; where the shape fits,
  the multi-index passes \<^verbatim>\<open>testIndex\<close>.
\<close>

theorem offset_index_roundtrip:
  assumes "wf_Tensor ts" and "0 \<le> k" and "k < Len (shape ts)"
  shows "\<exists>idx. index ts k = Inr idx \<and> offset ts idx = Inr k \<and>
               (fits (shape ts) \<longrightarrow> testIndex ts idx = Inr ())"
proof -
  from index_offset_wrapped [OF assms]
  obtain idx where idx: "index ts k = Inr idx" "offset ts idx = Inr k" by blast
  moreover have "testIndex ts idx = Inr ()" if "fits (shape ts)"
    using assms(1) that assms(2,3) idx(1) by (rule index_in_shape)
  ultimately show ?thesis by blast
qed

text \<open>Claim C5 on a tensor of shape \<open>[2, 3]\<close> at the flat offset 5.\<close>

theorem offset_index_roundtrip_witness:
  "\<exists>idx. index \<lparr>rank = 2, data = F16Slice [0, 0, 0, 0, 0, 0], shape = [2, 3], typ = Float16,
                 strides = [1, 2]\<rparr> 5 = Inr idx \<and>
         offset \<lparr>rank = 2, data = F16Slice [0, 0, 0, 0, 0, 0], shape = [2, 3], typ = Float16,
                  strides = [1, 2]\<rparr> idx = Inr 5 \<and>
         testIndex \<lparr>rank = 2, data = F16Slice [0, 0, 0, 0, 0, 0], shape = [2, 3], typ = Float16,
                  strides = [1, 2]\<rparr> idx = Inr ()"
proof -
  let ?ts = "\<lparr>rank = 2, data = F16Slice [0, 0, 0, 0, 0, 0], shape = [2, 3], typ = Float16,
               strides = [1, 2]\<rparr>"
  have "wf_Tensor ?ts" "(0::int) \<le> 5" "5 < Len (shape ?ts)"
    by (simp_all add: wf_Tensor_def Strides_eq Len_eq wrap_def)
  moreover have "fits (shape ?ts)" by (simp add: fits_def)
  ultimately show ?thesis
    using offset_index_roundtrip [of ?ts 5] by auto
qed

section \<open>Equality of tensors\<close>

lemma Equal_data_eq:
  "0 \<le> i \<Longrightarrow> n \<le> int (length v) \<Longrightarrow> n \<le> int (length o') \<Longrightarrow>
   Equal_data ne v o' i n = Inr (\<forall>j. i \<le> j \<and> j < n \<longrightarrow> \<not> ne (v ! nat j) (o' ! nat j))"
proof (induction ne v o' i n rule: Equal_data.induct)
  case (1 ne v o' i n)
  show ?case
  proof (cases "i < n")
    case False
    then show ?thesis
      by (subst Equal_data.simps) auto
  next
    case True
    show ?thesis
    proof (cases "ne (v ! nat i) (o' ! nat i)")
      case True
      with \<open>i < n\<close> 1(2-4) show ?thesis
        by (subst Equal_data.simps) (auto simp: nth_slice_def)
    next
      case False
      have "Equal_data ne v o' (i + 1) n =
          Inr (\<forall>j. i + 1 \<le> j \<and> j < n \<longrightarrow> \<not> ne (v ! nat j) (o' ! nat j))"
        using 1(1) [of "v ! nat i" "o' ! nat i"] \<open>i < n\<close> False 1(2-4)
        by (simp add: nth_slice_def)
      moreover have "(\<forall>j. i + 1 \<le> j \<and> j < n \<longrightarrow> \<not> ne (v ! nat j) (o' ! nat j)) =
          (\<forall>j. i \<le> j \<and> j < n \<longrightarrow> \<not> ne (v ! nat j) (o' ! nat j))"
      proof -
        have "i \<le> j \<longleftrightarrow> j = i \<or> i + 1 \<le> j" for j by auto
        then show ?thesis using False by auto
      qed
      ultimately show ?thesis
        using \<open>i < n\<close> False 1(2-4)
        by (subst Equal_data.simps) (simp add: nth_slice_def)
    qed
  qed
qed

lemma Equal_data_list_all2:
  assumes "int (length v) = n" "int (length o') = n"
  shows "Equal_data ne v o' 0 n = Inr (list_all2 (\<lambda>x y. \<not> ne x y) v o')"
proof -
  have "(\<forall>j. 0 \<le> j \<and> j < n \<longrightarrow> \<not> ne (v ! nat j) (o' ! nat j)) =
      (\<forall>k<length v. \<not> ne (v ! k) (o' ! k))"
  proof
    assume h: "\<forall>j. 0 \<le> j \<and> j < n \<longrightarrow> \<not> ne (v ! nat j) (o' ! nat j)"
    show "\<forall>k<length v. \<not> ne (v ! k) (o' ! k)"
    proof (intro allI impI)
      fix k assume "k < length v"
      with h [rule_format, of "int k"] assms show "\<not> ne (v ! k) (o' ! k)" by simp
    qed
  next
    assume h: "\<forall>k<length v. \<not> ne (v ! k) (o' ! k)"
    show "\<forall>j. 0 \<le> j \<and> j < n \<longrightarrow> \<not> ne (v ! nat j) (o' ! nat j)"
    proof (intro allI impI)
      fix j assume "0 \<le> j \<and> j < n"
      then have "nat j < length v" using assms by linarith
      with h show "\<not> ne (v ! nat j) (o' ! nat j)" by blast
    qed
  qed
  moreover have len: "length v = length o'" using assms by simp
  moreover have "Equal_data ne v o' 0 n =
      Inr (\<forall>j. 0 \<le> j \<and> j < n \<longrightarrow> \<not> ne (v ! nat j) (o' ! nat j))"
    using assms by (intro Equal_data_eq) simp_all
  ultimately show ?thesis
    by (simp only: list_all2_conv_all_nth len simp_thms)
qed

lemma elems_equal_refl: "wf_Tensor ts \<Longrightarrow> no_NaN (data ts) \<Longrightarrow> elems_equal (data ts) (data ts)"
proof (erule wf_Tensor_cases)
  fix v assume "data ts = F16Slice v"
  then show "elems_equal (data ts) (data ts)"
    by (simp add: ne16_def list_all2_conv_all_nth)
next
  fix v assume "data ts = F32Slice v" "no_NaN (data ts)"
  then show "elems_equal (data ts) (data ts)"
    by (simp add: ne32_def list_all2_conv_all_nth list_all_length)
next
  fix v assume "data ts = F64Slice v" "no_NaN (data ts)"
  then show "elems_equal (data ts) (data ts)"
    by (simp add: ne64_def list_all2_conv_all_nth list_all_length)
qed

lemma Tensor_Equal_eq:
  assumes "wf_Tensor ts" and "wf_Tensor other" and "length (shape other) = length (shape ts)"
  shows "Tensor_Equal ts other =
           Inr (shape ts = shape other \<and> typ ts = typ other \<and> elems_equal (data ts) (data other))"
proof (cases "shape ts = shape other \<and> typ ts = typ other")
  case False
  then show ?thesis
    using assms(3) by (auto simp: Tensor_Equal_def Shape_Equal_same_rank)
next
  case True
  then have sh: "Shape_Equal (shape ts) (shape other) = Inr True"
    by (simp add: Shape_Equal_same_rank)
  from assms(1) show ?thesis
  proof (cases rule: wf_Tensor_cases)
    case (F16 v)
    with assms(2) True obtain o' where "data other = F16Slice o'" "int (length o') = Len (shape ts)"
      by (auto elim!: wf_Tensor_cases)
    with F16 True sh show ?thesis
      by (simp add: Tensor_Equal_def Equal_data_list_all2)
  next
    case (F32 v)
    with assms(2) True obtain o' where "data other = F32Slice o'" "int (length o') = Len (shape ts)"
      by (auto elim!: wf_Tensor_cases)
    with F32 True sh show ?thesis
      by (simp add: Tensor_Equal_def Equal_data_list_all2)
  next
    case (F64 v)
    with assms(2) True obtain o' where "data other = F64Slice o'" "int (length o') = Len (shape ts)"
      by (auto elim!: wf_Tensor_cases)
    with F64 True sh show ?thesis
      by (simp add: Tensor_Equal_def Equal_data_list_all2)
  qed
qed


text \<open>
  Claim C8: \<^verbatim>\<open>Tensor.Equal\<close> is true exactly when the shapes are structurally equal, the
  tags match and all elements are bit-for-bit identical; in particular it is true of a
  tensor and itself. The elements are compared with Go's \<^verbatim>\<open>!=\<close>: a \<^verbatim>\<open>Float64\<close> tensor
  holding a NaN is not equal to itself, and a tensor holding \<open>+0\<close> equals one holding
  \<open>-0\<close>, whose bits differ. The shapes are compared by \<^verbatim>\<open>Shape.Equal\<close>, which takes
  \<open>[2]\<close> and \<open>[2, 1]\<close> for equal.
\<close>

theorem Tensor_Equal_counterexample:
  "wf_Tensor \<lparr>rank = 1, data = F64Slice [0x7FF8000000000000], shape = [1], typ = Float64,
              strides = [1]\<rparr> \<and>
   Tensor_Equal
     \<lparr>rank = 1, data = F64Slice [0x7FF8000000000000], shape = [1], typ = Float64, strides = [1]\<rparr>
     \<lparr>rank = 1, data = F64Slice [0x7FF8000000000000], shape = [1], typ = Float64, strides = [1]\<rparr>
     = Inr False \<and>
   Tensor_Equal
     \<lparr>rank = 1, data = F64Slice [0], shape = [1], typ = Float64, strides = [1]\<rparr>
     \<lparr>rank = 1, data = F64Slice [0x8000000000000000], shape = [1], typ = Float64, strides = [1]\<rparr>
     = Inr True \<and>
   Tensor_Equal
     \<lparr>rank = 1, data = F16Slice [1, 2], shape = [2], typ = Float16, strides = [1]\<rparr>
     \<lparr>rank = 2, data = F16Slice [1, 2], shape = [2, 1], typ = Float16, strides = [1, 2]\<rparr>
     = Inr True"
  by code_simp

text \<open>
  Claim C8 as amended: for two well-formed tensors of the same rank, \<^verbatim>\<open>Tensor.Equal\<close>
  returns true exactly when the shapes are equal, the tags match and every pair of
  corresponding elements is equal under \<^verbatim>\<open>==\<close> on the element type (equality of the bits
  for \<^verbatim>\<open>Float16\<close>; for \<^verbatim>\<open>float32\<close> and \<^verbatim>\<open>float64\<close> a NaN equals nothing and the two zeros
  are equal); a tensor holding no NaN is equal to itself.
\<close>

theorem Tensor_Equal_same_rank:
  assumes "wf_Tensor ts" and "wf_Tensor other" and "length (shape other) = length (shape ts)"
  shows "Tensor_Equal ts other =
           Inr (shape ts = shape other \<and> typ ts = typ other \<and> elems_equal (data ts) (data other)) \<and>
         (no_NaN (data ts) \<longrightarrow> Tensor_Equal ts ts = Inr True)"
  using assms Tensor_Equal_eq [of ts other] Tensor_Equal_eq [of ts ts] elems_equal_refl [of ts]
  by simp

text \<open>
  The amended claim C8 on two \<^verbatim>\<open>Float32\<close> tensors of shape \<open>[2]\<close> that differ in one
  element: they are unequal, and the first is equal to itself.
\<close>

theorem Tensor_Equal_same_rank_witness:
  "Tensor_Equal
     \<lparr>rank = 1, data = F32Slice [1, 2], shape = [2], typ = Float32, strides = [1]\<rparr>
     \<lparr>rank = 1, data = F32Slice [1, 3], shape = [2], typ = Float32, strides = [1]\<rparr>
     = Inr False \<and>
   Tensor_Equal
     \<lparr>rank = 1, data = F32Slice [1, 2], shape = [2], typ = Float32, strides = [1]\<rparr>
     \<lparr>rank = 1, data = F32Slice [1, 2], shape = [2], typ = Float32, strides = [1]\<rparr>
     = Inr True"
proof -
  let ?a = "\<lparr>rank = 1, data = F32Slice [1, 2], shape = [2], typ = Float32, strides = [1]\<rparr>"
  let ?b = "\<lparr>rank = 1, data = F32Slice [1, 3], shape = [2], typ = Float32, strides = [1]\<rparr>"
  have wf: "wf_Tensor ?a" "wf_Tensor ?b"
    by (simp_all add: wf_Tensor_def Strides_eq Len_eq wrap_def)
  have len: "length (shape ?b) = length (shape ?a)" by simp
  have nn: "no_NaN (data ?a)" by (simp add: isNaN32_def)
  have ne: "\<not> elems_equal (data ?a) (data ?b)" by (simp add: ne32_def isNaN32_def)
  from Tensor_Equal_same_rank [OF wf len] nn ne show ?thesis
    by simp
qed

section \<open>Rendering\<close>

lemma emit_loop_done: "n \<le> i \<Longrightarrow> emit_loop body d i n idx s = Inr (s, idx)"
  by (subst emit_loop.simps) simp

lemma toString_size_one:
  assumes "0 \<le> d" "d < Dim (shape ts)" "shape ts ! nat d = 1"
  shows "toString sprint ts d idx = Inr (''[]'', idx)"
  using assms
  by (subst toString.simps) (simp add: Let_def wrap_def emit_loop_done emit_last_def)

lemma String_shape_1:
  assumes "shape ts = [1]"
  shows "String sprint ts = Inr ''[]''"
  using assms by (simp add: String_def toString_size_one Dim_def)

lemma String_shape_2_1:
  assumes "shape ts = [2, 1]"
  shows "String sprint ts = Inr ''[[], []]''"
proof -
  have inner: "toString sprint ts 1 idx = Inr (''[]'', idx)" for idx
    using assms by (simp add: toString_size_one Dim_def)
  have loop: "emit_loop (toString sprint ts 1) 0 0 1 [0, 0] ''[''
      = Inr (''[[], '', [0, 0])"
    by (subst emit_loop.simps) (simp add: inner emit_loop_done)
  have "toString sprint ts 0 [0, 0] = Inr (''[[], []]'', [1, 0])"
    using assms
    by (subst toString.simps) (simp add: Let_def Dim_def wrap_def loop emit_last_def inner)
  then show ?thesis
    using assms by (simp add: String_def Dim_def make_def numeral_2_eq_2)
qed

text \<open>
  Claim C10: \<^verbatim>\<open>String()\<close> emits no element at the bracket level of an axis of size 1,
  the last entry of a level being printed only when the size of the axis exceeds 1: the
  level of an axis of size 1 is \<open>[]\<close> and leaves the slice \<^verbatim>\<open>index\<close> as it was, a tensor
  of shape \<open>[1]\<close> renders as \<open>[]\<close> and one of shape \<open>[2, 1]\<close> as \<open>[[], []]\<close>, whatever
  the buffer holds and however \<^verbatim>\<open>%v\<close> prints a value.
\<close>

theorem String_axis_of_size_one:
  "(0 \<le> d \<and> d < Dim (shape ts) \<and> shape ts ! nat d = 1 \<longrightarrow>
      toString sprint ts d idx = Inr (''[]'', idx)) \<and>
   (shape ts = [1] \<longrightarrow> String sprint ts = Inr ''[]'') \<and>
   (shape ts = [2, 1] \<longrightarrow> String sprint ts = Inr ''[[], []]'')"
  by (simp add: toString_size_one String_shape_1 String_shape_2_1)

text \<open>Claim C10 on tensors of shapes \<open>[1]\<close> and \<open>[2, 1]\<close> that hold non-zero values.\<close>

theorem String_axis_of_size_one_witness:
  "String (\<lambda>v. ''x'')
     \<lparr>rank = 1, data = F16Slice [0x3C00], shape = [1], typ = Float16, strides = [1]\<rparr>
     = Inr ''[]'' \<and>
   String (\<lambda>v. ''x'')
     \<lparr>rank = 2, data = F16Slice [0x3C00, 0x4000], shape = [2, 1], typ = Float16,
      strides = [1, 2]\<rparr>
     = Inr ''[[], []]'' \<and>
   toString (\<lambda>v. ''x'')
     \<lparr>rank = 2, data = F16Slice [0x3C00, 0x4000], shape = [2, 1], typ = Float16,
      strides = [1, 2]\<rparr> 1 [0, 0]
     = Inr (''[]'', [0, 0])"
  using String_axis_of_size_one [of 1
      "\<lparr>rank = 1, data = F16Slice [0x3C00], shape = [1], typ = Float16, strides = [1]\<rparr>"
      "\<lambda>v. ''x''" "[]"]
    String_axis_of_size_one [of 1
      "\<lparr>rank = 2, data = F16Slice [0x3C00, 0x4000], shape = [2, 1], typ = Float16,
        strides = [1, 2]\<rparr>"
      "\<lambda>v. ''x''" "[0, 0]"]
  by (simp add: Dim_def)

section \<open>Sub-tensors\<close>

lemma in_shape_nth:
  "in_shape sh idx \<longleftrightarrow> length idx = length sh \<and> (\<forall>i<length sh. 0 \<le> idx ! i \<and> idx ! i < sh ! i)"
  by (auto simp: in_shape_def list_all2_conv_all_nth)

lemma partial_offset_bounds:
  assumes "list_all (\<lambda>x. 0 < x) (sh :: int list)" "\<forall>i<length sh. 0 \<le> idx ! i \<and> idx ! i < sh ! i"
  shows "n \<le> length sh \<Longrightarrow>
    0 \<le> (\<Sum>i<n. prod_list (take i sh) * idx ! i) \<and>
    (\<Sum>i<n. prod_list (take i sh) * idx ! i) < prod_list (take n sh)"
proof (induction n)
  case 0
  then show ?case by simp
next
  case (Suc m)
  let ?S = "prod_list (take m sh)"
  let ?P = "\<Sum>i<m. prod_list (take i sh) * idx ! i"
  have S: "0 < ?S" using assms(1) by (rule prod_take_pos)
  have m: "m < length sh" using Suc.prems by simp
  have P: "0 \<le> ?P" "?P < ?S" using Suc.IH m by simp_all
  have x: "0 \<le> idx ! m" "idx ! m + 1 \<le> sh ! m" using assms(2) m by auto
  have "?S * (idx ! m + 1) \<le> ?S * sh ! m"
    using S x(2) by (simp only: mult_le_cancel_left_pos)
  then have "?P + ?S * idx ! m < ?S * sh ! m"
    using P(2) by (simp add: distrib_left)
  moreover have "0 \<le> ?S * idx ! m" using S x(1) by simp
  ultimately show ?case
    using P(1) m by (simp add: prod_take_Suc)
qed

lemma index_loop_offset:
  assumes "list_all (\<lambda>x. 0 < x) sh" "\<forall>i<length sh. 0 \<le> idx ! i \<and> idx ! i < sh ! i"
    and fits: "fits sh"
  shows "n \<le> length sh \<Longrightarrow> n \<le> length idx0 \<Longrightarrow>
    \<exists>res. index_loop (strides_of sh) n idx0 (\<Sum>i<n. prod_list (take i sh) * idx ! i) = Inr res \<and>
          length res = length idx0 \<and> (\<forall>j\<ge>n. res ! j = idx0 ! j) \<and> (\<forall>i<n. res ! i = idx ! i)"
proof (induction n arbitrary: idx0)
  case 0
  then show ?case by simp
next
  case (Suc m)
  let ?S = "prod_list (take m sh)"
  let ?P = "\<Sum>i<m. prod_list (take i sh) * idx ! i"
  let ?off = "\<Sum>i<Suc m. prod_list (take i sh) * idx ! i"
  have S: "0 < ?S" using assms(1) by (rule prod_take_pos)
  have m: "m < length sh" "m < length idx0" "m \<le> length sh" using Suc.prems by simp_all
  have P: "0 \<le> ?P" "?P < ?S"
    using partial_offset_bounds [OF assms(1,2) m(3)] by simp_all
  have off: "?off = ?P + ?S * idx ! m" by simp
  have "?off < prod_list (take (Suc m) sh)"
    using partial_offset_bounds [OF assms(1,2), of "Suc m"] m by simp
  then have big: "?off < 2 ^ 63"
    using prod_take_le [OF assms(1), of "Suc m"] fits by (simp add: fits_def del: sum.lessThan_Suc)
  have x: "0 \<le> idx ! m" using assms(2) m by simp
  have off0: "0 \<le> ?off" using P(1) S x by (simp add: off)
  have q: "?off div ?S = idx ! m"
    using P S by (simp add: off div_pos_pos_trivial)
  have r: "?off mod ?S = ?P"
    using P S by (simp add: off mod_pos_pos_trivial)
  have nth: "strides_of sh ! m = ?S" using m by simp
  have step: "index_loop (strides_of sh) (Suc m) idx0 ?off =
      index_loop (strides_of sh) m (idx0[m := idx ! m]) ?P"
    using m S nth quo_rem_nonneg [OF off0 big S] q r
    by (simp del: nth_map sum.lessThan_Suc)
  from Suc.IH [of "idx0[m := idx ! m]"] m
  obtain res where res: "index_loop (strides_of sh) m (idx0[m := idx ! m]) ?P = Inr res"
    "length res = length idx0" "\<forall>j\<ge>m. res ! j = idx0[m := idx ! m] ! j"
    "\<forall>i<m. res ! i = idx ! i"
    by auto
  have resm: "res ! m = idx ! m" using res(3) m by simp
  have "\<forall>j\<ge>Suc m. res ! j = idx0 ! j" using res(3) by simp
  moreover have "\<forall>i<Suc m. res ! i = idx ! i"
    using res(4) resm by (auto simp: less_Suc_eq)
  ultimately show ?case
    using step res(1,2) by (simp del: sum.lessThan_Suc)
qed

lemma offset_in_shape:
  assumes "wf_Tensor ts" "fits (shape ts)" "in_shape (shape ts) idx"
  shows "\<exists>off. offset ts idx = Inr off \<and> 0 \<le> off \<and> off < Len (shape ts) \<and>
               index ts off = Inr idx \<and> testIndex ts idx = Inr ()"
proof -
  let ?sh = "shape ts"
  let ?off = "\<Sum>i<length ?sh. prod_list (take i ?sh) * idx ! i"
  have sh: "list_all (\<lambda>x. 0 < x) ?sh" "strides ts = strides_of ?sh"
    using assms(1,2) by (simp_all add: wf_Tensor_shape)
  have idx: "length idx = length ?sh" "\<forall>i<length ?sh. 0 \<le> idx ! i \<and> idx ! i < ?sh ! i"
    using assms(3) by (simp_all add: in_shape_nth)
  have b: "0 \<le> ?off" "?off < Len ?sh"
    using partial_offset_bounds [OF sh(1) idx(2), of "length ?sh"] sh(1) assms(2)
    by (simp_all add: Len_fits)
  have "?off < 2 ^ 63"
    using b(2) wrap_range(2) [of "prod_list ?sh"] by (simp add: Len_eq)
  then have w: "wrap ?off = ?off" using b(1) by (simp add: wrap_id)
  have "offset_loop (strides_of ?sh) idx 0 =
      Inr (wrap (0 + (\<Sum>i<length idx. strides_of ?sh ! i * idx ! i)))"
    using idx(1) by (intro offset_loop_sum) (simp_all add: wrap_def)
  then have o: "offset ts idx = Inr ?off"
    using idx(1) w by (simp add: offset_def sh(2) sum_strides_of)
  from index_loop_offset [OF sh(1) idx(2) assms(2), of "length ?sh" "make (int (length ?sh))"]
  obtain res where res: "index ts ?off = Inr res" "length res = length ?sh"
    "\<forall>i<length ?sh. res ! i = idx ! i"
    by (auto simp: index_def sh(2) make_def)
  have "res = idx"
    using res(2,3) idx(1) by (intro nth_equalityI) simp_all
  moreover have "testIndex ts idx = Inr ()"
    using idx by (simp add: testIndex_def testIndex_loop_ok)
  ultimately show ?thesis
    using o b res(1) by simp
qed

lemma at_value_ok:
  assumes "wf_Tensor ts" "0 \<le> k" "k < Len (shape ts)"
  shows "\<exists>v. at ts k = Inr v \<and> value_ok (typ ts) v"
  using assms(1)
proof (cases rule: wf_Tensor_cases)
  case (F16 v)
  then show ?thesis using assms(2,3) by (simp add: at_def nth_slice_def)
next
  case (F32 v)
  then show ?thesis using assms(2,3) by (simp add: at_def nth_slice_def)
next
  case (F64 v)
  then show ?thesis using assms(2,3) by (simp add: at_def nth_slice_def)
qed

lemma wf_Tensor_data_update:
  "wf_Tensor ts \<Longrightarrow> slice_ok (typ ts) d (Len (shape ts)) \<Longrightarrow> wf_Tensor (ts\<lparr>data := d\<rparr>)"
  by (simp add: wf_Tensor_def)

lemma setAt_ok:
  assumes "wf_Tensor ts" "0 \<le> k" "k < Len (shape ts)" "value_ok (typ ts) v"
  shows "\<exists>ts'. setAt ts k v = Inr ts' \<and> wf_Tensor ts' \<and> shape ts' = shape ts \<and>
               strides ts' = strides ts \<and> typ ts' = typ ts \<and> rank ts' = rank ts \<and>
               at ts' k = Inr v \<and> (\<forall>j. j \<noteq> k \<longrightarrow> at ts' j = at ts j)"
  using assms(1)
proof (cases rule: wf_Tensor_cases)
  case (F16 b)
  with assms(4) obtain x where v: "v = AnyF16 x" by (cases v) simp_all
  let ?ts' = "ts\<lparr>data := F16Slice (b[nat k := x])\<rparr>"
  have "setAt ts k v = Inr ?ts'"
    using F16 v assms(2,3) by (simp add: setAt_def update_slice_def)
  moreover have "wf_Tensor ?ts'"
    using assms(1) F16 by (intro wf_Tensor_data_update) simp_all
  moreover have "at ?ts' k = Inr v"
    using F16 v assms(2,3) by (simp add: at_def nth_slice_def)
  moreover have "at ?ts' j = at ts j" if "j \<noteq> k" for j
    using F16 that assms(2) by (auto simp: at_def nth_slice_def nat_eq_iff)
  ultimately show ?thesis by simp
next
  case (F32 b)
  with assms(4) obtain x where v: "v = AnyF32 x" by (cases v) simp_all
  let ?ts' = "ts\<lparr>data := F32Slice (b[nat k := x])\<rparr>"
  have "setAt ts k v = Inr ?ts'"
    using F32 v assms(2,3) by (simp add: setAt_def update_slice_def)
  moreover have "wf_Tensor ?ts'"
    using assms(1) F32 by (intro wf_Tensor_data_update) simp_all
  moreover have "at ?ts' k = Inr v"
    using F32 v assms(2,3) by (simp add: at_def nth_slice_def)
  moreover have "at ?ts' j = at ts j" if "j \<noteq> k" for j
    using F32 that assms(2) by (auto simp: at_def nth_slice_def nat_eq_iff)
  ultimately show ?thesis by simp
next
  case (F64 b)
  with assms(4) obtain x where v: "v = AnyF64 x" by (cases v) simp_all
  let ?ts' = "ts\<lparr>data := F64Slice (b[nat k := x])\<rparr>"
  have "setAt ts k v = Inr ?ts'"
    using F64 v assms(2,3) by (simp add: setAt_def update_slice_def)
  moreover have "wf_Tensor ?ts'"
    using assms(1) F64 by (intro wf_Tensor_data_update) simp_all
  moreover have "at ?ts' k = Inr v"
    using F64 v assms(2,3) by (simp add: at_def nth_slice_def)
  moreover have "at ?ts' j = at ts j" if "j \<noteq> k" for j
    using F64 that assms(2) by (auto simp: at_def nth_slice_def nat_eq_iff)
  ultimately show ?thesis by simp
qed

lemma set_key_combine:
  "length x = length key \<Longrightarrow> set_key key x = combine key x"
proof (induction key arbitrary: x)
  case Nil
  then show ?case by (simp add: combine_def)
next
  case (Cons k key)
  then show ?case by (cases x) (auto simp: combine_def)
qed

lemma set_key_copy:
  "length src = length key \<Longrightarrow> length dst = length key \<Longrightarrow>
   set_key key (copy src dst) = combine key dst"
  by (simp add: copy_def set_key_combine)

lemma length_combine: "length idx = length key \<Longrightarrow> length (combine key idx) = length key"
  by (simp add: combine_def)

lemma testKey_loop_ok:
  "key_ok key sh \<Longrightarrow> list_all (\<lambda>x. 0 < x) sh \<Longrightarrow> testKey_loop key sh = Inr ()"
proof (induction key sh rule: testKey_loop.induct)
  case (1 sh)
  then show ?case by simp
next
  case (2 x idx)
  then show ?case by simp
next
  case (3 x idx s sh)
  then show ?case by auto
qed

lemma GetSub_shape_eq: "GetSub_shape key sh acc = acc @ sub_shape key sh"
  by (induction key sh acc rule: GetSub_shape.induct) simp_all

lemma sub_shape_pos:
  "list_all (\<lambda>x. 0 < x) sh \<Longrightarrow> list_all (\<lambda>x. 0 < x) (sub_shape key sh)"
proof (induction key arbitrary: sh)
  case Nil
  then show ?case by simp
next
  case (Cons k key)
  then show ?case by (cases sh) simp_all
qed

lemma prod_sub_shape_le:
  "list_all (\<lambda>x. 0 < x) sh \<Longrightarrow> prod_list (sub_shape key sh) \<le> prod_list sh"
proof (induction key arbitrary: sh)
  case Nil
  then show ?case using prod_list_pos [of sh] by simp
next
  case (Cons k key)
  show ?case
  proof (cases sh)
    case Nil
    then show ?thesis by simp
  next
    case (Cons s sh')
    with Cons.prems have s: "0 < s" and pos: "list_all (\<lambda>x. 0 < x) sh'" by simp_all
    have le: "prod_list (sub_shape key sh') \<le> prod_list sh'" using pos by (rule Cons.IH)
    have p: "0 < prod_list (sub_shape key sh')" "0 < prod_list sh'"
      using sub_shape_pos [OF pos, of key] pos by (simp_all add: prod_list_pos)
    have "s * prod_list (sub_shape key sh') \<le> s * prod_list sh'"
      using s le by simp
    moreover have "prod_list (sub_shape key sh') \<le> s * prod_list sh'"
    proof -
      have "1 * prod_list sh' \<le> s * prod_list sh'"
        using s p(2) by (intro mult_right_mono) simp_all
      with le show ?thesis by simp
    qed
    ultimately show ?thesis using Cons by simp
  qed
qed

lemma sub_shape_fits:
  "list_all (\<lambda>x. 0 < x) sh \<Longrightarrow> fits sh \<Longrightarrow> fits (sub_shape key sh)"
  using prod_sub_shape_le [of sh key] by (simp add: fits_def)

lemma combine_in_shape:
  assumes "key_ok key sh" "in_shape (sub_shape key sh) idx"
  shows "in_shape sh (combine key idx)"
proof -
  have len: "length key = length sh" using assms(1) by (rule list_all2_lengthD)
  have k: "\<forall>i<length sh. key ! i = - 1 \<or> (0 \<le> key ! i \<and> key ! i < sh ! i)"
    using assms(1) len by (simp add: list_all2_conv_all_nth)
  have i: "length idx = length sh"
    "\<forall>i<length sh. 0 \<le> idx ! i \<and> idx ! i < sub_shape key sh ! i"
    using assms(2) len by (simp_all add: in_shape_nth)
  show ?thesis
    unfolding in_shape_nth
  proof (intro conjI allI impI)
    show "length (combine key idx) = length sh"
      using len i(1) by (simp add: combine_def)
  next
    fix j assume j: "j < length sh"
    then have c: "combine key idx ! j = (if key ! j = - 1 then idx ! j else key ! j)"
      using len i(1) by (simp add: combine_def)
    have s: "sub_shape key sh ! j = (if key ! j = - 1 then sh ! j else 1)"
      using j len by simp
    show "0 \<le> combine key idx ! j" using c k i(2) j by auto
    show "combine key idx ! j < sh ! j" using c s k i(2) j by (auto split: if_splits)
  qed
qed

lemma get_in_shape:
  assumes "wf_Tensor ts" "fits (shape ts)" "in_shape (shape ts) idx"
  shows "\<exists>v. get ts idx = Inr v \<and> value_ok (typ ts) v \<and> Get ts idx = Inr v"
proof -
  from offset_in_shape [OF assms]
  obtain off where off: "offset ts idx = Inr off" "0 \<le> off" "off < Len (shape ts)"
    "testIndex ts idx = Inr ()"
    by blast
  from at_value_ok [OF assms(1) off(2,3)]
  obtain v where "at ts off = Inr v" "value_ok (typ ts) v" by blast
  then show ?thesis
    using off(1,4) by (simp add: get_def Get_def)
qed

lemma index_cong: "strides T' = strides T \<Longrightarrow> shape T' = shape T \<Longrightarrow> index T' j = index T j"
  by (simp add: index_def)

lemma testIndex_loop_in_shape:
  "testIndex_loop idx sh = Inr () \<Longrightarrow> length idx = length sh \<Longrightarrow>
   list_all2 (\<lambda>x s. 0 \<le> x \<and> x < s) idx sh"
proof (induction idx sh rule: testIndex_loop.induct)
  case (1 sh)
  then show ?case by simp
next
  case (2 x idx)
  then show ?case by simp
next
  case (3 x idx s sh)
  then show ?case by (simp split: if_splits)
qed

lemma testIndex_in_shape: "testIndex ts idx = Inr () \<Longrightarrow> in_shape (shape ts) idx"
  by (simp add: testIndex_def in_shape_def testIndex_loop_in_shape split: if_splits)

lemma GetSub_loop_correct:
  assumes ts: "wf_Tensor ts" and fts: "fits (shape ts)" and key: "key_ok key (shape ts)"
  shows "wf_Tensor T \<Longrightarrow> shape T = sub_shape key (shape ts) \<Longrightarrow> typ T = typ ts \<Longrightarrow>
    length src = length key \<Longrightarrow> 0 \<le> off \<Longrightarrow> off \<le> n \<Longrightarrow> n = Len (shape T) \<Longrightarrow>
    \<exists>T'. GetSub_loop ts key T src off n = Inr T' \<and> wf_Tensor T' \<and> shape T' = shape T \<and>
         strides T' = strides T \<and> typ T' = typ T \<and> rank T' = rank T \<and>
         (\<forall>j. j < off \<longrightarrow> at T' j = at T j) \<and>
         (\<forall>j idx. off \<le> j \<and> j < n \<and> index T j = Inr idx \<longrightarrow>
            at T' j = get ts (combine key idx) \<and> (\<exists>v. at T' j = Inr v))"
proof (induction "nat (n - off)" arbitrary: T src off)
  case 0
  then have "off = n" by simp
  then have "GetSub_loop ts key T src off n = Inr T"
    by (subst GetSub_loop.simps) simp
  moreover have "\<not> (off \<le> j \<and> j < n)" for j
    using \<open>off = n\<close> by simp
  ultimately show ?case
    using "0.prems"(1) by blast
next
  case (Suc m)
  then have lt: "off < n" by linarith
  have wfT: "wf_Tensor T" and shT: "shape T = sub_shape key (shape ts)"
    and tyT: "typ T = typ ts" and lsrc: "length src = length key" and off0: "0 \<le> off"
    and n: "n = Len (shape T)"
    using Suc.prems by simp_all
  have len: "length key = length (shape ts)" using key by (rule list_all2_lengthD)
  have fT: "fits (shape T)"
    using ts fts unfolding shT by (intro sub_shape_fits) (simp_all add: wf_Tensor_def)
  from index_offset_ok [OF wfT fT off0] lt n
  obtain dst where dst: "index T off = Inr dst" "offset T dst = Inr off" "testIndex T dst = Inr ()"
    by auto
  have dsh: "in_shape (shape T) dst"
    using dst(3) by (rule testIndex_in_shape)
  then have dlen: "length dst = length key"
    using shT len by (simp add: in_shape_def)
  let ?c = "combine key dst"
  have csh: "in_shape (shape ts) ?c"
    using key dsh unfolding shT by (rule combine_in_shape)
  from get_in_shape [OF ts fts csh]
  obtain v where v: "get ts ?c = Inr v" "value_ok (typ ts) v" by blast
  from setAt_ok [OF wfT off0, of v] lt n v(2) tyT
  obtain T1 where T1: "setAt T off v = Inr T1" "wf_Tensor T1" "shape T1 = shape T"
    "strides T1 = strides T" "typ T1 = typ T" "rank T1 = rank T" "at T1 off = Inr v"
    "\<forall>j. j \<noteq> off \<longrightarrow> at T1 j = at T j"
    by auto
  have set: "set_t T dst v = Inr T1"
    using dst(2) T1(1) by (simp add: set_t_def)
  have src': "set_key key (copy src dst) = ?c"
    using lsrc dlen by (rule set_key_copy)
  have step: "GetSub_loop ts key T src off n = GetSub_loop ts key T1 ?c (off + 1) n"
    using lt dst(1) src' v(1) set
    by (subst GetSub_loop.simps) (simp add: Let_def)
  have m: "m = nat (n - (off + 1))" using Suc.hyps(2) by linarith
  have clen: "length ?c = length key" using dlen by (rule length_combine)
  from Suc.hyps(1) [OF m T1(2), of ?c] T1(3,5) shT tyT clen off0 lt n
  obtain T' where T': "GetSub_loop ts key T1 ?c (off + 1) n = Inr T'" "wf_Tensor T'"
    "shape T' = shape T1" "strides T' = strides T1" "typ T' = typ T1" "rank T' = rank T1"
    "\<forall>j. j < off + 1 \<longrightarrow> at T' j = at T1 j"
    "\<forall>j idx. off + 1 \<le> j \<and> j < n \<and> index T1 j = Inr idx \<longrightarrow>
        at T' j = get ts (combine key idx) \<and> (\<exists>v. at T' j = Inr v)"
    by auto
  have before: "\<forall>j. j < off \<longrightarrow> at T' j = at T j"
    using T'(7) T1(8) by simp
  have after: "at T' j = get ts (combine key idx) \<and> (\<exists>v. at T' j = Inr v)"
    if j: "off \<le> j \<and> j < n \<and> index T j = Inr idx" for j idx
  proof (cases "j = off")
    case True
    then have "idx = dst" using j dst(1) by simp
    moreover have "at T' off = Inr v" using T'(7) T1(7) by simp
    ultimately show ?thesis using True v(1) by simp
  next
    case False
    then have "off + 1 \<le> j" using j by simp
    moreover have "index T1 j = Inr idx"
      using j index_cong [OF T1(4,3)] by simp
    ultimately show ?thesis using T'(8) j by blast
  qed
  then have all_after: "\<forall>j idx. off \<le> j \<and> j < n \<and> index T j = Inr idx \<longrightarrow>
      at T' j = get ts (combine key idx) \<and> (\<exists>v. at T' j = Inr v)"
    by blast
  have "GetSub_loop ts key T src off n = Inr T'"
    using step T'(1) by simp
  moreover have "shape T' = shape T" "strides T' = strides T" "typ T' = typ T" "rank T' = rank T"
    using T'(3-6) T1(3-6) by simp_all
  ultimately show ?case
    using T'(2) before all_after by blast
qed

lemma GetSub_ok:
  assumes ts: "wf_Tensor ts" and fts: "fits (shape ts)" and key: "key_ok indexKey (shape ts)"
    and alloc: "(if typ ts = Float16 then 2 else 8) * Len (sub_shape indexKey (shape ts))
                  \<le> maxAlloc"
  shows "\<exists>T0 sub. testKey ts indexKey = Inr () \<and>
               NewTensor AnyNil (typ ts) (sub_shape indexKey (shape ts)) = Some (Inr T0) \<and>
               GetSub_loop ts indexKey T0 (make (int (length indexKey))) 0
                 (Len (sub_shape indexKey (shape ts))) = Inr sub \<and>
               GetSub ts indexKey = Some (Inr sub) \<and> wf_Tensor sub \<and> rank sub = rank ts \<and>
               typ sub = typ ts \<and> shape sub = sub_shape indexKey (shape ts) \<and>
               (\<forall>idx. in_shape (shape sub) idx \<longrightarrow>
                  (\<exists>v. Get sub idx = Inr v \<and> Get ts (combine indexKey idx) = Inr v))"
proof -
  let ?sh = "shape ts"
  let ?sh' = "sub_shape indexKey ?sh"
  have len: "length indexKey = length ?sh" using key by (rule list_all2_lengthD)
  have sh: "?sh \<noteq> []" "list_all (\<lambda>x. 0 < x) ?sh" "rank ts = int (length ?sh)"
    using ts by (simp_all add: wf_Tensor_def)
  have sh'3: "length ?sh' = length ?sh" using len by simp
  then have sh'1: "?sh' \<noteq> []" using sh(1) by (metis length_0_conv)
  have sh'2: "list_all (\<lambda>x. 0 < x) ?sh'" using sh(2) by (rule sub_shape_pos)
  have sh'4: "fits ?sh'" using sh(2) fts by (rule sub_shape_fits)
  note sh' = sh'1 sh'2 sh'3 sh'4
  have tk: "testKey ts indexKey = Inr ()"
    using key sh(2) len by (simp add: testKey_def testKey_loop_ok)
  have gs: "GetSub_shape indexKey ?sh [] = ?sh'"
    by (simp add: GetSub_shape_eq)
  have ty: "typ ts = Float16 \<or> typ ts = Float32 \<or> typ ts = Float64"
    using ts by (cases rule: wf_Tensor_cases) simp_all
  have n0: "0 \<le> Len ?sh'"
    using Len_pos [OF sh'(2,4)] by simp
  from NewTensor_nil_wf [OF ty sh'(1,2) n0 alloc]
  obtain T0 where T0: "NewTensor AnyNil (typ ts) ?sh' = Some (Inr T0)" "wf_Tensor T0"
    "typ T0 = typ ts" "shape T0 = ?sh'" "rank T0 = int (length ?sh')"
    by blast
  from GetSub_loop_correct [OF ts fts key T0(2,4,3), of "make (int (length indexKey))" 0
      "Len (shape T0)"] n0 T0(4)
  obtain sub where sub: "GetSub_loop ts indexKey T0 (make (int (length indexKey))) 0 (Len (shape T0))
      = Inr sub"
    "wf_Tensor sub" "shape sub = shape T0" "strides sub = strides T0" "typ sub = typ T0"
    "rank sub = rank T0"
    "\<forall>j idx. 0 \<le> j \<and> j < Len (shape T0) \<and> index T0 j = Inr idx \<longrightarrow>
        at sub j = get ts (combine indexKey idx) \<and> (\<exists>v. at sub j = Inr v)"
    by (auto simp: make_def)
  have G: "GetSub ts indexKey = Some (Inr sub)"
    using tk gs T0(1,4) sub(1) by (simp add: GetSub_def Let_def)
  have fsub: "fits (shape sub)" using sh'(4) sub(3) T0(4) by simp
  have elems: "\<exists>v. Get sub idx = Inr v \<and> Get ts (combine indexKey idx) = Inr v"
    if idx: "in_shape (shape sub) idx" for idx
  proof -
    from offset_in_shape [OF sub(2) fsub idx]
    obtain off where off: "offset sub idx = Inr off" "0 \<le> off" "off < Len (shape sub)"
      "index sub off = Inr idx" "testIndex sub idx = Inr ()"
      by blast
    have "index T0 off = Inr idx"
      using off(4) index_cong [OF sub(4,3)] by simp
    moreover have "off < Len (shape T0)" using off(3) sub(3) by simp
    ultimately have "at sub off = get ts (combine indexKey idx) \<and> (\<exists>v. at sub off = Inr v)"
      using sub(7) off(2) by blast
    then obtain v where v: "at sub off = Inr v" "at sub off = get ts (combine indexKey idx)"
      by blast
    have "Get sub idx = Inr v"
      using off(1,5) v(1) by (simp add: Get_def get_def)
    moreover have "in_shape ?sh (combine indexKey idx)"
      using key idx unfolding sub(3) T0(4) by (rule combine_in_shape)
    from get_in_shape [OF ts fts this] v
    have "Get ts (combine indexKey idx) = Inr v" by auto
    ultimately show ?thesis by simp
  qed
  have "rank sub = rank ts" using sub(6) T0(5) sh'(3) sh(3) by simp
  moreover have "typ sub = typ ts" using sub(5) T0(3) by simp
  moreover have "shape sub = ?sh'" using sub(3) T0(4) by simp
  moreover have "GetSub_loop ts indexKey T0 (make (int (length indexKey))) 0 (Len ?sh') = Inr sub"
    using sub(1) T0(4) by simp
  ultimately show ?thesis
    using tk T0(1) G sub(2) elems by blast
qed

section \<open>Sub-tensors in a store\<close>

lemma deref_ref_to: "a < length st \<Longrightarrow> st ! a = data t \<Longrightarrow> deref st (ref_to a t) = t"
  by (cases t) (simp add: deref_def ref_to_def cell_def)

lemma deref_fields [simp]:
  "shape (deref st r) = ref_shape r" "typ (deref st r) = ref_typ r"
  "rank (deref st r) = ref_rank r" "strides (deref st r) = ref_strides r"
  by (simp_all add: deref_def)

lemma deref_other:
  "ref_data r \<noteq> a \<Longrightarrow> deref (st[a := d]) r = deref st r"
  by (simp add: deref_def cell_def)

lemma deref_same:
  "ref_data r < length st \<Longrightarrow> deref (st[ref_data r := d]) r = (deref st r)\<lparr>data := d\<rparr>"
  by (simp add: deref_def cell_def)

lemma deref_prefix:
  "ref_data r < length st \<Longrightarrow> \<forall>b<length st. st' ! b = st ! b \<Longrightarrow> length st \<le> length st' \<Longrightarrow>
   deref st' r = deref st r"
  by (simp add: deref_def cell_def)

lemma wf_deref_in_store: "wf_Tensor (deref st r) \<Longrightarrow> ref_data r < length st"
  by (erule wf_Tensor_cases) (simp_all add: deref_def cell_def split: if_splits)

lemma setAt_frame: "setAt T off v = Inr T1 \<Longrightarrow> T1 = T\<lparr>data := data T1\<rparr>"
  by (auto simp: setAt_def update_slice_def split: if_splits any.splits)

lemma set_t_frame: "set_t T idx v = Inr T1 \<Longrightarrow> T1 = T\<lparr>data := data T1\<rparr>"
  by (auto simp: set_t_def dest: setAt_frame split: sum.splits)

lemma set_ref_other:
  "set_ref st r idx v = Inr st' \<Longrightarrow> ref_data r' \<noteq> ref_data r \<Longrightarrow> deref st' r' = deref st r'"
  by (auto simp: set_ref_def deref_other split: sum.splits)

text \<open>
  \<^verbatim>\<open>NewTensor\<close> in a store builds the tensor that \<^verbatim>\<open>NewTensor\<close> builds on values; its
  buffer is the caller's slice or an array appended to the store, and the arrays of the
  store it started from are as they were.
\<close>

lemma init_tensor_ref_refines:
  assumes "init_tensor d typ' sh = Some (Inr t)" "a < length st" "st ! a = d"
  shows "init_tensor_ref st a typ' sh = Some (Inr (st, ref_to a t)) \<and> st ! a = data t"
  using assms
  by (auto simp: init_tensor_def init_tensor_ref_def ref_to_def split: sum.splits)

lemma NewTensor_switch_ref_refines:
  assumes "a < length st" "NewTensor_switch (st ! a) typ' sh = Some (Inr t)"
  shows "\<exists>st' a'. NewTensor_switch_ref st a typ' sh = Some (Inr (st', ref_to a' t)) \<and>
           a' < length st' \<and> st' ! a' = data t \<and> length st \<le> length st' \<and>
           (\<forall>b<length st. st' ! b = st ! b) \<and> (a' = a \<or> length st \<le> a')"
proof -
  have keep: "\<exists>st' a'. init_tensor_ref st a typ' sh = Some (Inr (st', ref_to a' t)) \<and>
           a' < length st' \<and> st' ! a' = data t \<and> length st \<le> length st' \<and>
           (\<forall>b<length st. st' ! b = st ! b) \<and> (a' = a \<or> length st \<le> a')"
    if "init_tensor (st ! a) typ' sh = Some (Inr t)"
    using init_tensor_ref_refines [of "st ! a" typ' sh t a st] assms(1) that by auto
  have new: "\<exists>st' a'. init_tensor_ref (st @ [d]) (length st) typ' sh = Some (Inr (st', ref_to a' t)) \<and>
           a' < length st' \<and> st' ! a' = data t \<and> length st \<le> length st' \<and>
           (\<forall>b<length st. st' ! b = st ! b) \<and> (a' = a \<or> length st \<le> a')"
    if "init_tensor d typ' sh = Some (Inr t)" for d
  proof -
    have "init_tensor_ref (st @ [d]) (length st) typ' sh =
        Some (Inr (st @ [d], ref_to (length st) t)) \<and> (st @ [d]) ! length st = data t"
      using that by (intro init_tensor_ref_refines) simp_all
    then show ?thesis
      by (intro exI [of _ "st @ [d]"] exI [of _ "length st"]) (auto simp: nth_append)
  qed
  show ?thesis
  proof (cases "st ! a")
    case (F16Slice v)
    then show ?thesis
      using assms keep new
      by (auto simp: NewTensor_switch_def NewTensor_switch_ref_def cell_def
          split: if_splits sum.splits option.splits)
  next
    case (F32Slice v)
    then show ?thesis
      using assms keep new
      by (auto simp: NewTensor_switch_def NewTensor_switch_ref_def cell_def
          split: if_splits sum.splits option.splits)
  next
    case (F64Slice v)
    then show ?thesis
      using assms keep new
      by (auto simp: NewTensor_switch_def NewTensor_switch_ref_def cell_def
          split: if_splits sum.splits option.splits)
  qed (use assms in \<open>simp_all add: NewTensor_switch_def\<close>)
qed

lemma NewTensor_ref_nil:
  assumes "NewTensor AnyNil typ' sh = Some (Inr t)"
  shows "\<exists>st' a'. NewTensor_ref st None typ' sh = Some (Inr (st', ref_to a' t)) \<and>
           length st \<le> a' \<and> a' < length st' \<and> st' ! a' = data t \<and>
           length st \<le> length st' \<and> (\<forall>b<length st. st' ! b = st ! b)"
proof -
  from assms obtain v where v:
    "(if typ' = Float16 then map_sum id F16Slice (makeslice 2 (Len sh))
      else if typ' = Float64 then map_sum id F32Slice (makeslice 4 (Len sh))
      else map_sum id F64Slice (makeslice 8 (Len sh))) = Inr v"
    "NewTensor_switch v typ' sh = Some (Inr t)"
    and ok: "\<not> (typ' \<noteq> Float16 \<and> typ' \<noteq> Float32 \<and> typ' \<noteq> Float64)"
      "\<not> list_ex (\<lambda>x. x \<le> 0) sh"
    by (auto simp: NewTensor_def split: if_splits sum.splits)
  let ?st1 = "st @ [v]"
  have "length st < length ?st1" "NewTensor_switch (?st1 ! length st) typ' sh = Some (Inr t)"
    using v(2) by simp_all
  from NewTensor_switch_ref_refines [OF this]
  obtain st' a' where r: "NewTensor_switch_ref ?st1 (length st) typ' sh = Some (Inr (st', ref_to a' t))"
    "a' < length st'" "st' ! a' = data t" "length ?st1 \<le> length st'"
    "\<forall>b<length ?st1. st' ! b = ?st1 ! b" "a' = length st \<or> length ?st1 \<le> a'"
    by blast
  have "NewTensor_ref st None typ' sh = Some (Inr (st', ref_to a' t))"
    using ok v(1) r(1) by (simp add: NewTensor_ref_def)
  moreover have "\<forall>b<length st. st' ! b = st ! b"
    using r(5) by (auto simp: nth_append)
  moreover have "length st \<le> a'" using r(6) by auto
  moreover have "length st \<le> length st'" using r(4) by simp
  ultimately show ?thesis using r(2,3) by blast
qed

text \<open>
  The loop of \<^verbatim>\<open>GetSub\<close> in a store does what the loop on values does, and writes only
  the buffer of \<^verbatim>\<open>tensor\<close>.
\<close>

lemma GetSub_ref_loop_refines:
  assumes "ref_data ts \<noteq> ref_data tensor" "ref_data tensor < length st"
  shows "GetSub_loop (deref st ts) key (deref st tensor) src off n = Inr T' \<Longrightarrow>
    GetSub_ref_loop st ts key tensor src off n = Inr (st[ref_data tensor := data T']) \<and>
    deref (st[ref_data tensor := data T']) tensor = T'"
  using assms(2)
proof (induction "nat (n - off)" arbitrary: st src off)
  case 0
  then have ge: "\<not> off < n" by simp
  with "0.prems"(1) have T': "T' = deref st tensor"
    by (subst (asm) GetSub_loop.simps) simp
  have "st[ref_data tensor := data (deref st tensor)] = st"
    using "0.prems"(2) by (simp add: deref_def cell_def)
  with ge T' show ?case
    by (subst GetSub_ref_loop.simps) simp
next
  case (Suc m)
  let ?a = "ref_data tensor"
  have lt: "off < n" using Suc.hyps(2) by linarith
  have a: "?a < length st" using Suc.prems(2) .
  from Suc.prems(1) lt obtain dst v T1 where
    dst: "index (deref st tensor) off = Inr dst" and
    v: "get (deref st ts) (set_key key (copy src dst)) = Inr v" and
    T1: "set_t (deref st tensor) dst v = Inr T1" and
    rest: "GetSub_loop (deref st ts) key T1 (set_key key (copy src dst)) (off + 1) n = Inr T'"
    by (subst (asm) GetSub_loop.simps) (auto simp: Let_def split: sum.splits)
  let ?st1 = "st[?a := data T1]"
  have T1': "T1 = (deref st tensor)\<lparr>data := data T1\<rparr>" using T1 by (rule set_t_frame)
  have d1: "deref ?st1 tensor = T1"
    using a T1' by (simp add: deref_same)
  have d2: "deref ?st1 ts = deref st ts"
    using assms(1) by (simp add: deref_other)
  have set: "set_ref st tensor dst v = Inr ?st1"
    using T1 by (simp add: set_ref_def)
  have m: "m = nat (n - (off + 1))" using Suc.hyps(2) by linarith
  have a1: "?a < length ?st1" using a by simp
  from Suc.hyps(1) [OF m _ a1, of "set_key key (copy src dst)"] rest d1 d2
  have IH: "GetSub_ref_loop ?st1 ts key tensor (set_key key (copy src dst)) (off + 1) n =
      Inr (?st1[?a := data T']) \<and> deref (?st1[?a := data T']) tensor = T'"
    by simp
  have "GetSub_ref_loop st ts key tensor src off n =
      GetSub_ref_loop ?st1 ts key tensor (set_key key (copy src dst)) (off + 1) n"
    using lt dst v set
    by (subst GetSub_ref_loop.simps) (simp add: Let_def get_ref_def)
  with IH show ?case by simp
qed

lemma GetSub_ref_ok:
  assumes wf: "wf_Tensor (deref st ts)" and fts: "fits (ref_shape ts)"
    and key: "key_ok indexKey (ref_shape ts)"
    and alloc: "(if ref_typ ts = Float16 then 2 else 8) * Len (sub_shape indexKey (ref_shape ts))
                  \<le> maxAlloc"
  shows "\<exists>st' sub. GetSub_ref st ts indexKey = Some (Inr (st', sub)) \<and>
           length st \<le> ref_data sub \<and> ref_data sub < length st' \<and>
           ref_data sub \<noteq> ref_data ts \<and>
           (\<forall>a<length st. st' ! a = st ! a) \<and> deref st' ts = deref st ts \<and>
           wf_Tensor (deref st' sub) \<and> ref_rank sub = ref_rank ts \<and> ref_typ sub = ref_typ ts \<and>
           ref_shape sub = sub_shape indexKey (ref_shape ts) \<and>
           (\<forall>idx. in_shape (ref_shape sub) idx \<longrightarrow>
              (\<exists>v. Get_ref st' sub idx = Inr v \<and> Get_ref st' ts (combine indexKey idx) = Inr v)) \<and>
           (\<forall>idx v st''. set_ref st' sub idx v = Inr st'' \<longrightarrow> deref st'' ts = deref st ts)"
proof -
  let ?ts = "deref st ts"
  let ?sh' = "sub_shape indexKey (ref_shape ts)"
  have a: "ref_data ts < length st" using wf by (rule wf_deref_in_store)
  from GetSub_ok [OF wf, of indexKey] fts key alloc
  obtain T0 sub where v:
    "testKey ?ts indexKey = Inr ()"
    "NewTensor AnyNil (ref_typ ts) ?sh' = Some (Inr T0)"
    "GetSub_loop ?ts indexKey T0 (make (int (length indexKey))) 0 (Len ?sh') = Inr sub"
    "wf_Tensor sub" "rank sub = rank ?ts" "typ sub = typ ?ts" "shape sub = ?sh'"
    "\<forall>idx. in_shape (shape sub) idx \<longrightarrow>
       (\<exists>v. Get sub idx = Inr v \<and> Get ?ts (combine indexKey idx) = Inr v)"
    by auto
  from NewTensor_ref_nil [OF v(2), of st]
  obtain st1 a' where new: "NewTensor_ref st None (ref_typ ts) ?sh' = Some (Inr (st1, ref_to a' T0))"
    and a': "length st \<le> a'" "a' < length st1" "st1 ! a' = data T0"
    and pre: "length st \<le> length st1" "\<forall>b<length st. st1 ! b = st ! b"
    by blast
  let ?r = "ref_to a' T0"
  let ?st' = "st1[a' := data sub]"
  have r: "ref_data ?r = a'" by (simp add: ref_to_def)
  have d0: "deref st1 ?r = T0" using a'(2,3) by (rule deref_ref_to)
  have d1: "deref st1 ts = ?ts" using a pre(2,1) by (rule deref_prefix)
  have ne: "ref_data ts \<noteq> ref_data ?r" using a a'(1) r by simp
  have in1: "ref_data ?r < length st1" using a'(2) r by simp
  have "GetSub_loop (deref st1 ts) indexKey (deref st1 ?r) (make (int (length indexKey))) 0
      (Len ?sh') = Inr sub"
    using v(3) d0 d1 by simp
  from GetSub_ref_loop_refines [OF ne in1 this] r
  have loop: "GetSub_ref_loop st1 ts indexKey ?r (make (int (length indexKey))) 0 (Len ?sh') =
      Inr ?st'" and dsub: "deref ?st' ?r = sub"
    by simp_all
  have G: "GetSub_ref st ts indexKey = Some (Inr (?st', ?r))"
    using v(1) new loop by (simp add: GetSub_ref_def Let_def GetSub_shape_eq)
  have old: "\<forall>a<length st. ?st' ! a = st ! a"
    using pre(2) a'(1) by simp
  have dts: "deref ?st' ts = ?ts"
    using d1 ne r by (simp add: deref_other)
  have shr: "ref_shape ?r = shape sub" "ref_rank ?r = rank sub" "ref_typ ?r = typ sub"
    using arg_cong [OF dsub, of shape] arg_cong [OF dsub, of rank] arg_cong [OF dsub, of "typ"]
    by simp_all
  have elems: "\<forall>idx. in_shape (ref_shape ?r) idx \<longrightarrow>
      (\<exists>v. Get_ref ?st' ?r idx = Inr v \<and> Get_ref ?st' ts (combine indexKey idx) = Inr v)"
    unfolding Get_ref_def dsub dts shr using v(8) by simp
  have after: "\<forall>idx v st''. set_ref ?st' ?r idx v = Inr st'' \<longrightarrow> deref st'' ts = ?ts"
  proof (intro allI impI)
    fix idx v st'' assume "set_ref ?st' ?r idx v = Inr st''"
    from set_ref_other [OF this ne] show "deref st'' ts = ?ts"
      unfolding dts .
  qed
  have f: "ref_rank ?r = ref_rank ts" "ref_typ ?r = ref_typ ts" "ref_shape ?r = ?sh'"
    using v(5-7) shr by simp_all
  have wfr: "wf_Tensor (deref ?st' ?r)" using v(4) dsub by simp
  have fresh: "length st \<le> ref_data ?r" "ref_data ?r < length ?st'"
    using a' r by simp_all
  have ne': "ref_data ?r \<noteq> ref_data ts" using ne by simp
  show ?thesis
  proof (intro exI conjI)
    show "GetSub_ref st ts indexKey = Some (Inr (?st', ?r))" by (rule G)
  qed (fact fresh ne' old dts wfr f elems after)+
qed

text \<open>
  Claim C7: for every tensor and every key with one entry per axis whose concrete entries
  are within their axes, \<^verbatim>\<open>GetSub\<close> returns a new tensor that shares no buffer with the
  source, of the same rank and tag, whose shape has the source's size on the wildcard axes
  and 1 on the others, and whose element at each of its multi-indices is the source's
  element at the coordinate that takes the result's coordinate on the wildcard axes and
  the key's on the others. \<^verbatim>\<open>NewTensor\<close> accepts six doubles with the shape
  \<open>[4294967295, 4294967297, 2, 9223372036854775805]\<close>, whose product of sizes wraps to 6.
  On that tensor the key \<open>[0, - 1, - 1, - 1]\<close> is within the axes, the element count of
  the result's shape wraps to a negative number, and \<^verbatim>\<open>GetSub\<close> panics in \<^verbatim>\<open>make\<close>.
\<close>

theorem GetSub_counterexample:
  "NewTensor_ref [F64Slice [0, 0, 0, 0, 0, 0]] (Some 0) Float64
       [4294967295, 4294967297, 2, 9223372036854775805] =
     Some (Inr ([F64Slice [0, 0, 0, 0, 0, 0]],
                TensorRef 4 0 [4294967295, 4294967297, 2, 9223372036854775805] Float64
                  [1, 4294967295, - 1, - 2])) \<and>
   wf_Tensor (deref [F64Slice [0, 0, 0, 0, 0, 0]]
     (TensorRef 4 0 [4294967295, 4294967297, 2, 9223372036854775805] Float64
        [1, 4294967295, - 1, - 2])) \<and>
   length [0, - 1, - 1, - 1 :: int] = length [4294967295, 4294967297, 2, 9223372036854775805 :: int] \<and>
   key_ok [0, - 1, - 1, - 1] [4294967295, 4294967297, 2, 9223372036854775805] \<and>
   GetSub_ref [F64Slice [0, 0, 0, 0, 0, 0]]
     (TensorRef 4 0 [4294967295, 4294967297, 2, 9223372036854775805] Float64
        [1, 4294967295, - 1, - 2]) [0, - 1, - 1, - 1] = Some (Inl RuntimePanic) \<and>
   Len [1, 4294967297, 2, 9223372036854775805] = - 25769803782 \<and>
   \<not> fits [4294967295, 4294967297, 2, 9223372036854775805]"
  by (simp add: NewTensor_ref_def NewTensor_switch_ref_def init_tensor_ref_def cell_def Len_eq
      wrap_def Strides_eq wf_Tensor_def deref_def GetSub_ref_def testKey_def makeslice_def
      fits_def Type_defs)

text \<open>
  Claim C7 as amended: for every well-formed tensor whose shape fits and every key with
  one entry per axis whose concrete entries are within their axes, the result being of a
  length \<^verbatim>\<open>makeslice\<close> accepts, \<^verbatim>\<open>GetSub\<close> returns a tensor whose buffer is a new array of
  the store: it is not the source's buffer, no array of the store \<^verbatim>\<open>GetSub\<close> started
  from is written, and a later write through the result leaves the source as it was. The
  result is well-formed, of the same rank and tag, its shape has the source's size on the
  wildcard axes and 1 on the others, and its element at each of its multi-indices is the
  source's element at the coordinate that takes the result's coordinate on the wildcard
  axes and the key's on the others.
\<close>

theorem GetSub_correct:
  assumes "wf_Tensor (deref st ts)" and "fits (ref_shape ts)"
    and "length indexKey = length (ref_shape ts)"
    and "key_ok indexKey (ref_shape ts)"
    and "(if ref_typ ts = Float16 then 2 else 8) * Len (sub_shape indexKey (ref_shape ts))
           \<le> maxAlloc"
  shows "\<exists>st' sub. GetSub_ref st ts indexKey = Some (Inr (st', sub)) \<and>
           length st \<le> ref_data sub \<and> ref_data sub < length st' \<and>
           ref_data sub \<noteq> ref_data ts \<and>
           (\<forall>a<length st. st' ! a = st ! a) \<and> deref st' ts = deref st ts \<and>
           wf_Tensor (deref st' sub) \<and> ref_rank sub = ref_rank ts \<and> ref_typ sub = ref_typ ts \<and>
           ref_shape sub = sub_shape indexKey (ref_shape ts) \<and>
           (\<forall>idx. in_shape (ref_shape sub) idx \<longrightarrow>
              (\<exists>v. Get_ref st' sub idx = Inr v \<and> Get_ref st' ts (combine indexKey idx) = Inr v)) \<and>
           (\<forall>idx v st''. set_ref st' sub idx v = Inr st'' \<longrightarrow> deref st'' ts = deref st ts)"
  using assms(1,2,4,5) by (rule GetSub_ref_ok)

text \<open>
  The amended claim C7 on six half-precision values of shape \<open>[2, 3]\<close> at address 0 and
  the key \<open>[1, - 1]\<close>: the result has shape \<open>[1, 3]\<close>, its buffer is at a new address, the
  source's array is unchanged, and its element at \<open>[0, 2]\<close> is the source's at \<open>[1, 2]\<close>.
\<close>

theorem GetSub_correct_witness:
  "\<exists>st' sub. GetSub_ref [F16Slice [10, 11, 12, 13, 14, 15]]
                (TensorRef 2 0 [2, 3] Float16 [1, 2]) [1, - 1] = Some (Inr (st', sub)) \<and>
         1 \<le> ref_data sub \<and> ref_rank sub = 2 \<and> ref_typ sub = Float16 \<and> ref_shape sub = [1, 3] \<and>
         st' ! 0 = F16Slice [10, 11, 12, 13, 14, 15] \<and>
         Get_ref st' sub [0, 2] = Inr (AnyF16 15)"
proof -
  let ?st = "[F16Slice [10, 11, 12, 13, 14, 15]]"
  let ?ts = "TensorRef 2 0 [2, 3] Float16 [1, 2]"
  have wf: "wf_Tensor (deref ?st ?ts)"
    by (simp add: wf_Tensor_def deref_def cell_def Strides_eq Len_eq wrap_def)
  have fts: "fits (ref_shape ?ts)" by (simp add: fits_def)
  have len: "length [1, - 1 :: int] = length (ref_shape ?ts)" by simp
  have key: "key_ok [1, - 1] (ref_shape ?ts)" by simp
  have alloc: "(if ref_typ ?ts = Float16 then 2 else 8) * Len (sub_shape [1, - 1] (ref_shape ?ts))
      \<le> maxAlloc"
    by (simp add: Len_eq wrap_def maxAlloc_def)
  from GetSub_correct [OF wf fts len key alloc]
  obtain st' sub where sub: "GetSub_ref ?st ?ts [1, - 1] = Some (Inr (st', sub))"
    "length ?st \<le> ref_data sub" "\<forall>a<length ?st. st' ! a = ?st ! a"
    "deref st' ?ts = deref ?st ?ts"
    "ref_rank sub = ref_rank ?ts" "ref_typ sub = ref_typ ?ts"
    "ref_shape sub = sub_shape [1, - 1] (ref_shape ?ts)"
    "\<forall>idx. in_shape (ref_shape sub) idx \<longrightarrow>
       (\<exists>v. Get_ref st' sub idx = Inr v \<and> Get_ref st' ?ts (combine [1, - 1] idx) = Inr v)"
    by blast
  have shape: "ref_shape sub = [1, 3]" using sub(7) by simp
  have "in_shape (ref_shape sub) [0, 2]" by (simp add: shape in_shape_def)
  with sub(8) obtain v where v: "Get_ref st' sub [0, 2] = Inr v"
    "Get_ref st' ?ts (combine [1, - 1] [0, 2]) = Inr v"
    by blast
  have "Get (deref ?st ?ts) (combine [1, - 1] [0, 2]) = Inr (AnyF16 15)"
    by (simp add: combine_def Get_def testIndex_def get_def offset_def at_def nth_slice_def
        deref_def cell_def wrap_def)
  with v sub(4) have "Get_ref st' sub [0, 2] = Inr (AnyF16 15)"
    by (simp add: Get_ref_def)
  moreover have "st' ! 0 = F16Slice [10, 11, 12, 13, 14, 15]" using sub(3) by simp
  ultimately show ?thesis
    using sub(1,2,5,6) shape by simp
qed

section \<open>Every construction returns\<close>

text \<open>
  The renormalising loop is entered with a non-zero \<^verbatim>\<open>frac\<close> of at most ten bits, so it
  ends: \<^verbatim>\<open>ToF32\<close> and \<^verbatim>\<open>ToF64\<close> return on every half, \<^verbatim>\<open>NewTensor\<close> returns or panics on
  every input, and what it returns is a well-formed tensor.
\<close>

lemma below_bit10:
  fixes frac :: "'a::len word"
  assumes "11 \<le> LENGTH('a)" "frac < 2 ^ 11" "frac AND 0x400 = 0"
  shows "frac < 2 ^ 10"
proof -
  have nb: "\<not> bit frac 10"
    using assms(3) and_exp_eq_0_iff_not_bit [of frac 10] by simp
  have t11: "take_bit 11 frac = frac"
    using less_mask_eq [OF assms(2)] by (simp add: take_bit_eq_mask)
  have "take_bit 10 frac = frac"
  proof (rule bit_eqI)
    fix n assume "possible_bit TYPE('a word) n"
    show "bit (take_bit 10 frac) n = bit frac n"
    proof (cases "n < 10")
      case True
      then show ?thesis by (simp add: bit_take_bit_iff)
    next
      case False
      then have "n = 10 \<or> 11 \<le> n" by linarith
      then have "\<not> bit frac n"
      proof
        assume "n = 10" then show ?thesis using nb by simp
      next
        assume "11 \<le> n"
        then have "\<not> bit (take_bit 11 frac) n" by (simp add: bit_take_bit_iff)
        then show ?thesis using t11 by simp
      qed
      with False show ?thesis by (simp add: bit_take_bit_iff)
    qed
  qed
  then have "frac AND mask 10 = frac" by (simp add: take_bit_eq_mask)
  moreover have "frac AND mask 10 < 2 ^ 10"
    using assms(1) by (intro and_mask_less_size) (simp add: word_size)
  ultimately show ?thesis by simp
qed

lemma denorm32_returns:
  "frac \<noteq> 0 \<Longrightarrow> frac < 2 ^ 11 \<Longrightarrow> \<exists>y. denorm32 frac exp = Some y"
proof (induction "2 ^ 11 - unat frac" arbitrary: frac exp rule: less_induct)
  case less
  show ?case
  proof (cases "frac AND 0x400 = 0")
    case False
    then show ?thesis by (subst denorm32.simps) simp
  next
    case True
    have lt: "frac < 2 ^ 10"
      using less.prems(2) True by (intro below_bit10) simp_all
    then have u: "unat frac < 2 ^ 10" by (simp add: word_less_nat_alt)
    have u0: "0 < unat frac" using less.prems(1) by (simp add: unat_gt_0)
    have d: "unat (push_bit 1 frac) = 2 * unat frac"
      using u by (simp add: unat_word_ariths push_bit_eq_mult)
    have "push_bit 1 frac \<noteq> 0" using d u0 by (metis mult_eq_0_iff unat_0 zero_neq_numeral less_numeral_extra(3))
    moreover have "push_bit 1 frac < 2 ^ 11"
      using d u by (simp add: word_less_nat_alt)
    moreover have "2 ^ 11 - unat (push_bit 1 frac) < 2 ^ 11 - unat frac"
      using d u u0 by simp
    ultimately obtain y where "denorm32 (push_bit 1 frac) (exp - 1) = Some y"
      using less.hyps by blast
    with True show ?thesis by (subst denorm32.simps) simp
  qed
qed

lemma denorm64_returns:
  "frac \<noteq> 0 \<Longrightarrow> frac < 2 ^ 11 \<Longrightarrow> \<exists>y. denorm64 frac exp = Some y"
proof (induction "2 ^ 11 - unat frac" arbitrary: frac exp rule: less_induct)
  case less
  show ?case
  proof (cases "frac AND 0x400 = 0")
    case False
    then show ?thesis by (subst denorm64.simps) simp
  next
    case True
    have lt: "frac < 2 ^ 10"
      using less.prems(2) True by (intro below_bit10) simp_all
    then have u: "unat frac < 2 ^ 10" by (simp add: word_less_nat_alt)
    have u0: "0 < unat frac" using less.prems(1) by (simp add: unat_gt_0)
    have d: "unat (push_bit 1 frac) = 2 * unat frac"
      using u by (simp add: unat_word_ariths push_bit_eq_mult)
    have "push_bit 1 frac \<noteq> 0" using d u0 by (metis mult_eq_0_iff unat_0 zero_neq_numeral less_numeral_extra(3))
    moreover have "push_bit 1 frac < 2 ^ 11"
      using d u by (simp add: word_less_nat_alt)
    moreover have "2 ^ 11 - unat (push_bit 1 frac) < 2 ^ 11 - unat frac"
      using d u u0 by simp
    ultimately obtain y where "denorm64 (push_bit 1 frac) (exp - 1) = Some y"
      using less.hyps by blast
    with True show ?thesis by (subst denorm64.simps) simp
  qed
qed

lemma mask10_bound32: "(ucast (f16 AND 0x3ff :: 16 word) :: 32 word) < 2 ^ 11"
proof -
  have "(ucast (f16 AND 0x3ff) :: 32 word) = ucast f16 AND 0x3ff"
    by (simp add: unsigned_and_eq)
  moreover have "(ucast f16 AND 0x3ff :: 32 word) \<le> 0x3ff" by (rule word_and_le1)
  moreover have "(0x3ff :: 32 word) < 2 ^ 11" by simp
  ultimately show ?thesis by (simp only: le_less_trans)
qed

lemma mask10_bound64: "(ucast (f16 AND 0x3ff :: 16 word) :: 64 word) < 2 ^ 11"
proof -
  have "(ucast (f16 AND 0x3ff) :: 64 word) = ucast f16 AND 0x3ff"
    by (simp add: unsigned_and_eq)
  moreover have "(ucast f16 AND 0x3ff :: 64 word) \<le> 0x3ff" by (rule word_and_le1)
  moreover have "(0x3ff :: 64 word) < 2 ^ 11" by simp
  ultimately show ?thesis by (simp only: le_less_trans)
qed

lemma ToF32_returns: "\<exists>y. ToF32 f16 = Some y"
proof -
  let ?frac = "ucast (f16 AND 0x3ff) :: 32 word"
  have "\<exists>y. denorm32 ?frac e = Some y" if "?frac \<noteq> 0" for e
    using that mask10_bound32 by (rule denorm32_returns)
  then have "?frac = 0 \<or> (\<exists>y. denorm32 ?frac 0 = Some y)" by blast
  then show ?thesis
    by (auto simp: ToF32_def Let_def split: option.splits prod.splits)
qed

lemma ToF64_returns: "\<exists>y. ToF64 f16 = Some y"
proof -
  let ?frac = "ucast (f16 AND 0x3ff) :: 64 word"
  have "\<exists>y. denorm64 ?frac e = Some y" if "?frac \<noteq> 0" for e
    using that mask10_bound64 by (rule denorm64_returns)
  then have "?frac = 0 \<or> (\<exists>y. denorm64 ?frac 0 = Some y)" by blast
  then show ?thesis
    by (auto simp: ToF64_def Let_def split: option.splits prod.splits)
qed


lemma those_map_Some:
  assumes "\<And>x. \<exists>y. f x = Some y"
  shows "\<exists>ys. those (map f v) = Some ys \<and> length ys = length v"
proof (induction v)
  case Nil
  then show ?case by simp
next
  case (Cons a v)
  then obtain ys where "those (map f v) = Some ys" "length ys = length v" by blast
  moreover obtain y where "f a = Some y" using assms by blast
  ultimately show ?case by simp
qed

lemma init_tensor_returns: "\<exists>r. init_tensor d t sh = Some r"
  by (simp add: init_tensor_def split: sum.splits)

lemma NewTensor_switch_not_None: "NewTensor_switch d t sh \<noteq> None"
proof -
  have a: "those (map ToF32 v) \<noteq> None" for v
    using those_map_Some [of ToF32 v] ToF32_returns by auto
  have b: "those (map ToF64 v) \<noteq> None" for v
    using those_map_Some [of ToF64 v] ToF64_returns by auto
  have c: "init_tensor d' t' sh' \<noteq> None" for d' t' sh'
    using init_tensor_returns [of d' t' sh'] by auto
  show ?thesis
    by (cases d)
      (simp_all add: NewTensor_switch_def convert_def a b c split: option.split del: not_None_eq)
qed

lemma NewTensor_switch_returns: "\<exists>r. NewTensor_switch d t sh = Some r"
  using NewTensor_switch_not_None [of d t sh] by auto

lemma NewTensor_returns: "\<exists>r. NewTensor d t sh = Some r"
  by (simp add: NewTensor_def NewTensor_switch_returns split: sum.split)

lemma init_tensor_wf:
  "init_tensor d t sh = Some (Inr ts) \<Longrightarrow> list_all (\<lambda>x. 0 < x) sh \<Longrightarrow> slice_ok t d (Len sh) \<Longrightarrow>
   wf_Tensor ts"
  by (cases "sh = []")
    (auto simp: init_tensor_def wf_Tensor_def Strides_Nil Strides_eq split: sum.splits)

lemma list_all_pos: "\<not> list_ex (\<lambda>x. x \<le> 0) sh \<Longrightarrow> list_all (\<lambda>x. 0 < x) (sh :: int list)"
  by (induction sh) auto

lemma length_those: "those xs = Some ys \<Longrightarrow> length ys = length xs"
proof (induction xs arbitrary: ys)
  case Nil
  then show ?case by simp
next
  case (Cons a xs)
  then show ?case by (auto split: option.splits)
qed

lemma NewTensor_wf:
  assumes "NewTensor d t sh = Some (Inr ts)"
  shows "wf_Tensor ts"
proof -
  have pos: "list_all (\<lambda>x. 0 < x) sh"
    using assms by (intro list_all_pos) (auto simp: NewTensor_def NewTensor_switch_def
        split: if_splits)
  have "\<exists>d'. init_tensor d' t sh = Some (Inr ts) \<and> slice_ok t d' (Len sh)"
    using assms
    by (auto simp: NewTensor_def NewTensor_switch_def makeslice_def convert_def dest!: length_those
        split: if_splits any.splits option.splits sum.splits)
  then show ?thesis
    using pos init_tensor_wf by blast
qed

end
